theory Spec2Isabelle
  imports Complex_Main "HOL-Library.Monad_Syntax"
begin

section \<open>Strings of the editor\<close>

text \<open>
  A JavaScript string is a sequence of UTF-16 code units. A code unit is modelled as a
  natural number (the code units are the numbers below 65536), a string as the list of
  its code units; \<open>js\<close> embeds a literal of one-byte characters.
  \<open>indexOf\<close> is \<^verbatim>\<open>String.prototype.indexOf(searchString, position)\<close>: the start is
  clamped to the length of the text, and the first index at or after it where the
  search string occurs is returned; \<open>None\<close> stands for the result \<^verbatim>\<open>-1\<close>.
\<close>

type_synonym code_unit = nat

type_synonym jstring = "code_unit list"

definition js :: "string \<Rightarrow> jstring" where
  "js s = map of_char s"

abbreviation char_CR :: code_unit where
  "char_CR \<equiv> 13"

abbreviation char_LF :: code_unit where
  "char_LF \<equiv> 10"

definition occurs_at :: "jstring \<Rightarrow> jstring \<Rightarrow> nat \<Rightarrow> bool" where
  "occurs_at s pat k = (take (length pat) (drop k s) = pat)"

definition indexOf :: "jstring \<Rightarrow> jstring \<Rightarrow> nat \<Rightarrow> nat option" where
  "indexOf s pat pos =
     find (occurs_at s pat) [min pos (length s) ..< Suc (length s) - length pat]"

definition includes_str :: "jstring \<Rightarrow> jstring \<Rightarrow> bool" where
  "includes_str s pat = (indexOf s pat 0 \<noteq> None)"

text \<open>
  \<^verbatim>\<open>String.prototype.toLowerCase\<close> belongs to the runtime. It is a parameter
  \<open>toLowerCase\<close> of the functions that call it, and nothing is assumed about it: the
  lower case of a string may be longer than the string (the lower case of U+0130 is
  the two code units U+0069 U+0307).
\<close>

type_synonym toLowerCase_fn = "jstring \<Rightarrow> jstring"

text \<open>
  \<^verbatim>\<open>escapeRegExp\<close> puts a backslash before each of the characters
  \<^verbatim>\<open>. * + ? ^ $ { } ( ) | [ ]\<close> and the backslash.
\<close>

abbreviation char_backslash :: code_unit where
  "char_backslash \<equiv> 92"

definition regexSpecial :: "code_unit \<Rightarrow> bool" where
  "regexSpecial c = (c \<in> set (js ''.*+?^${}()|[]'') \<or> c = char_backslash)"

definition escapeRegExp :: "jstring \<Rightarrow> jstring" where
  "escapeRegExp s = concat (map (\<lambda>c. if regexSpecial c then [char_backslash, c] else [c]) s)"

section \<open>The regular-expression engine\<close>

text \<open>
  The engine is the JavaScript runtime's, not the editor's. A compiled pattern is a
  \<open>matcher\<close>: \<open>m str i = Some len\<close> when the pattern matches \<open>str\<close> at index \<open>i\<close> with a
  match of \<open>len\<close> code units, and \<open>None\<close> when it does not match there. The constructor
  \<^verbatim>\<open>new RegExp(pattern, flags)\<close> is a parameter \<open>RegExp_new\<close> of the functions that
  call it: it takes the pattern and whether the flag \<^verbatim>\<open>i\<close> is set (the flag \<^verbatim>\<open>g\<close> is
  always set), and \<open>None\<close> is the \<^verbatim>\<open>SyntaxError\<close> it throws on an invalid pattern.
\<close>

type_synonym matcher = "jstring \<Rightarrow> nat \<Rightarrow> nat option"

type_synonym RegExp_ctor = "jstring \<Rightarrow> bool \<Rightarrow> matcher option"

text \<open>
  The scan of \<^verbatim>\<open>RegExp.prototype.exec\<close> from \<^verbatim>\<open>lastIndex\<close>: it fails beyond the end of
  the string, and else tries the indices in turn. It returns the index and the length
  of the match.
\<close>

function regexSearch :: "matcher \<Rightarrow> jstring \<Rightarrow> nat \<Rightarrow> (nat \<times> nat) option" where
  "regexSearch m str i =
     (if i > length str then None
      else (case m str i of
              Some len \<Rightarrow> Some (i, len)
            | None \<Rightarrow> regexSearch m str (Suc i)))"
  by pat_completeness auto
termination
  by (relation "measure (\<lambda>(m, str, i). Suc (length str) - i)") auto

declare regexSearch.simps [simp del]

text \<open>
  The loop \<^verbatim>\<open>while ((match = regex.exec(text)) !== null) matches.push(...)\<close> on a
  regular expression with the flag \<^verbatim>\<open>g\<close>: after a match, \<^verbatim>\<open>exec\<close> sets \<^verbatim>\<open>lastIndex\<close> to
  the end of the match, and the loop body does not touch it. \<open>None\<close> is a loop that does
  not return.
\<close>

partial_function (option) execLoop ::
  "matcher \<Rightarrow> jstring \<Rightarrow> nat \<Rightarrow> (nat \<times> nat) list \<Rightarrow> (nat \<times> nat) list option" where
  "execLoop m str lastIndex matches =
     (case regexSearch m str lastIndex of
        None \<Rightarrow> Some matches
      | Some (idx, len) \<Rightarrow> execLoop m str (idx + len) (matches @ [(idx, idx + len)]))"

lemma regexSearch_bounds:
  "regexSearch m str i = Some (idx, len) \<Longrightarrow> i \<le> idx \<and> idx \<le> length str"
proof (induction m str i rule: regexSearch.induct)
  case (1 m str i)
  then show ?case
    by (subst (asm) (2) regexSearch.simps) (auto split: if_splits option.splits)
qed

text \<open>
  \<^verbatim>\<open>content.match(regex)\<close> with the flag \<^verbatim>\<open>g\<close>, as the number of matches it collects
  (0 for the result \<^verbatim>\<open>null\<close>): after an empty match the next search starts one index
  further.
\<close>

function matchCount :: "matcher \<Rightarrow> jstring \<Rightarrow> nat \<Rightarrow> nat" where
  "matchCount m str i =
     (case regexSearch m str i of
        None \<Rightarrow> 0
      | Some (idx, len) \<Rightarrow> Suc (matchCount m str (if len = 0 then Suc idx else idx + len)))"
  by pat_completeness auto
termination
proof (relation "measure (\<lambda>(m, str, i). Suc (length str) - i)", goal_cases)
  case 1
  show ?case by simp
next
  case (2 m str i x2 idx len)
  then have "i \<le> idx \<and> idx \<le> length str"
    using regexSearch_bounds[of m str i idx len] by simp
  then show ?case by auto
qed

declare matchCount.simps [simp del]

section \<open>The document\<close>

text \<open>
  The editor keeps its document as lines. Every string that becomes document text (the
  initial content, and the text a change inserts) is split at each CR LF, CR or LF,
  since the editor is created without a line separator of its own; and
  \<^verbatim>\<open>doc.toString()\<close> joins the lines with LF. So the string of a document never holds
  a carriage return. \<open>normalizeBreaks\<close> is that split followed by that join: each
  CR LF, each other CR and each LF becomes one LF.
\<close>

fun normalizeBreaks :: "jstring \<Rightarrow> jstring" where
  "normalizeBreaks [] = []"
| "normalizeBreaks (c # cs) =
     (if c = char_CR then
        (case cs of
           [] \<Rightarrow> [char_LF]
         | d # ds \<Rightarrow>
             if d = char_LF then char_LF # normalizeBreaks ds
             else char_LF # normalizeBreaks cs)
      else c # normalizeBreaks cs)"

text \<open>
  The type of documents: a document is given by its string, \<^verbatim>\<open>doc.toString()\<close>, which
  holds no carriage return. \<open>Text_of\<close> makes the document of a string, as
  \<^verbatim>\<open>EditorState.create({doc: content})\<close> does.
\<close>

typedef Text = "{s :: jstring. char_CR \<notin> set s}"
  morphisms toString Abs_Text
  by (rule exI[of _ "[]"]) simp

definition Text_of :: "jstring \<Rightarrow> Text" where
  "Text_of s = Abs_Text (normalizeBreaks s)"

section \<open>Search: counting matches and the current match\<close>

record search_options =
  caseSensitive :: bool
  regexp :: bool
  wholeWord :: bool

record SearchQuery = search_options +
  search :: jstring

record CustomSearchQuery = SearchQuery +
  cursorPos :: nat

text \<open>A decoration: the span of a match and whether it carries the class of the
  selected match.\<close>

type_synonym decoration = "nat \<times> nat \<times> bool"

abbreviation word_boundary :: jstring where
  "word_boundary \<equiv> [char_backslash, 98]"

text \<open>
  The regular expression that \<^verbatim>\<open>customSearchHighlight\<close> builds from the query; the flag
  \<^verbatim>\<open>i\<close> is added unless the query is case sensitive. (\<open>word_boundary\<close> is the pattern
  \<^verbatim>\<open>\b\<close>.)
\<close>

definition buildRegex :: "RegExp_ctor \<Rightarrow> ('a CustomSearchQuery_scheme) \<Rightarrow> matcher option" where
  "buildRegex RegExp_new query =
     (if regexp query then RegExp_new (search query) (\<not> caseSensitive query)
      else if wholeWord query then
        RegExp_new (word_boundary @ escapeRegExp (search query) @ word_boundary)
          (\<not> caseSensitive query)
      else RegExp_new (escapeRegExp (search query)) (\<not> caseSensitive query))"

text \<open>
  The update of the state field \<^verbatim>\<open>customSearchHighlight\<close> by a transaction that carries
  the effect \<^verbatim>\<open>setCustomSearch\<close> with the value \<open>query\<close>, on the document text of the new
  state. An invalid pattern is caught and gives no decoration.
\<close>

definition customSearchHighlight ::
  "RegExp_ctor \<Rightarrow> jstring \<Rightarrow> CustomSearchQuery option \<Rightarrow> decoration list option" where
  "customSearchHighlight RegExp_new str effect =
     (case effect of
        None \<Rightarrow> Some []
      | Some query \<Rightarrow>
          if search query = [] then Some []
          else (case buildRegex RegExp_new query of
                  None \<Rightarrow> Some []
                | Some regex \<Rightarrow>
                    do {
                      matches \<leftarrow> execLoop regex str 0 [];
                      Some (map (\<lambda>(from, to).
                                   (from, to, cursorPos query \<ge> from \<and> cursorPos query \<le> to))
                              matches)
                    }))"

text \<open>
  The loop \<^verbatim>\<open>while ((pos = searchContent.indexOf(searchPattern, pos)) !== -1)\<close> of
  \<^verbatim>\<open>countMatches\<close> and \<^verbatim>\<open>getCurrentMatchIndex\<close>, collecting the positions; the counter of
  \<^verbatim>\<open>countMatches\<close> is the number of positions collected.
\<close>

partial_function (option) indexOfLoop ::
  "jstring \<Rightarrow> jstring \<Rightarrow> nat \<Rightarrow> nat list \<Rightarrow> nat list option" where
  "indexOfLoop searchContent searchPattern pos matchPositions =
     (case indexOf searchContent searchPattern pos of
        None \<Rightarrow> Some matchPositions
      | Some p \<Rightarrow>
          indexOfLoop searchContent searchPattern (p + length searchPattern)
            (matchPositions @ [p]))"

definition countMatches ::
  "RegExp_ctor \<Rightarrow> toLowerCase_fn \<Rightarrow> jstring \<Rightarrow> jstring \<Rightarrow> ('a search_options_scheme)
     \<Rightarrow> nat option" where
  "countMatches RegExp_new toLowerCase content searchText options =
     (if searchText = [] then Some 0
      else if regexp options then
        (case RegExp_new searchText (\<not> caseSensitive options) of
           None \<Rightarrow> Some 0
         | Some regex \<Rightarrow> Some (matchCount regex content 0))
      else
        (let searchContent = (if \<not> caseSensitive options then toLowerCase content else content);
             searchPattern = (if \<not> caseSensitive options then toLowerCase searchText else searchText)
         in if wholeWord options then
              (case RegExp_new (word_boundary @ escapeRegExp searchPattern @ word_boundary)
                      (\<not> caseSensitive options) of
                 None \<Rightarrow> Some 0
               | Some regex \<Rightarrow> Some (matchCount regex content 0))
            else map_option length (indexOfLoop searchContent searchPattern 0 [])))"

text \<open>
  The loop of \<^verbatim>\<open>getCurrentMatchIndex\<close> over \<^verbatim>\<open>matchPositions\<close>, from index \<open>i\<close> on;
  \<open>len\<close> is \<^verbatim>\<open>searchText.length\<close>. Past the last position the result is
  \<^verbatim>\<open>matchPositions.length\<close>.
\<close>

fun matchIndexFrom :: "nat \<Rightarrow> nat list \<Rightarrow> nat \<Rightarrow> nat \<Rightarrow> nat" where
  "matchIndexFrom i [] len cursor = i"
| "matchIndexFrom i (matchPos # rest) len cursor =
     (let matchEnd = matchPos + len
      in if cursor \<ge> matchPos \<and> cursor \<le> matchEnd then i + 1
         else if cursor < matchPos then i + 1
         else matchIndexFrom (i + 1) rest len cursor)"

definition currentMatchIndex :: "nat list \<Rightarrow> nat \<Rightarrow> nat \<Rightarrow> nat" where
  "currentMatchIndex matchPositions len cursor = matchIndexFrom 0 matchPositions len cursor"

text \<open>
  \<^verbatim>\<open>getCurrentMatchIndex\<close>, on the content and the start of the main selection. An
  exception of \<^verbatim>\<open>new RegExp\<close> inside the \<^verbatim>\<open>try\<close> block gives the result 1.
\<close>

definition getCurrentMatchIndex ::
  "RegExp_ctor \<Rightarrow> toLowerCase_fn \<Rightarrow> jstring \<Rightarrow> nat \<Rightarrow> jstring \<Rightarrow> ('a search_options_scheme)
     \<Rightarrow> nat option" where
  "getCurrentMatchIndex RegExp_new toLowerCase content cursor searchText options =
     (if searchText = [] then Some 0
      else do {
        totalMatches \<leftarrow> countMatches RegExp_new toLowerCase content searchText options;
        if totalMatches = 0 then Some 0
        else if regexp options then
          (case RegExp_new searchText (\<not> caseSensitive options) of
             None \<Rightarrow> Some 1
           | Some regex \<Rightarrow>
               do {
                 matches \<leftarrow> execLoop regex content 0 [];
                 Some (currentMatchIndex (map fst matches) (length searchText) cursor)
               })
        else
          (let searchContent = (if \<not> caseSensitive options then toLowerCase content else content);
               searchPattern = (if \<not> caseSensitive options then toLowerCase searchText else searchText)
           in if wholeWord options then
                (case RegExp_new (word_boundary @ escapeRegExp searchPattern @ word_boundary)
                        (\<not> caseSensitive options) of
                   None \<Rightarrow> Some 1
                 | Some regex \<Rightarrow>
                     do {
                       matches \<leftarrow> execLoop regex content 0 [];
                       Some (currentMatchIndex (map fst matches) (length searchText) cursor)
                     })
              else
                do {
                  matchPositions \<leftarrow> indexOfLoop searchContent searchPattern 0 [];
                  Some (currentMatchIndex matchPositions (length searchText) cursor)
                })
      })"

section \<open>The editor state\<close>

text \<open>
  The part of the editor state the operations read: the document and the main
  selection. The search layer adds the query of the search extension and the
  decorations of \<^verbatim>\<open>customSearchHighlight\<close>.
\<close>

record editor_state =
  doc :: Text
  anchor :: nat
  head :: nat

record search_state = editor_state +
  searchQuery :: SearchQuery
  highlight :: "decoration list"

definition sel_from :: "'a editor_state_scheme \<Rightarrow> nat" where
  "sel_from s = min (anchor s) (head s)"

definition sel_to :: "'a editor_state_scheme \<Rightarrow> nat" where
  "sel_to s = max (anchor s) (head s)"

definition sel_empty :: "'a editor_state_scheme \<Rightarrow> bool" where
  "sel_empty s = (anchor s = head s)"

text \<open>
  \<^verbatim>\<open>clearSearch\<close> dispatches one transaction with two effects: the query of the search
  extension becomes the empty query, and \<^verbatim>\<open>setCustomSearch.of(null)\<close> reaches
  \<^verbatim>\<open>customSearchHighlight\<close>.
\<close>

definition emptyQuery :: SearchQuery where
  "emptyQuery = \<lparr>caseSensitive = False, regexp = False, wholeWord = False, search = []\<rparr>"

definition clearSearch :: "RegExp_ctor \<Rightarrow> search_state \<Rightarrow> search_state option" where
  "clearSearch RegExp_new s =
     do {
       h \<leftarrow> customSearchHighlight RegExp_new (toString (doc s)) None;
       Some (s\<lparr>searchQuery := emptyQuery, highlight := h\<rparr>)
     }"

text \<open>
  \<^verbatim>\<open>find\<close>: the result is the pair \<^verbatim>\<open>(count, currentIndex)\<close> and the state after the two
  dispatches. The name \<open>find\<close> is a list function of HOL.
\<close>

definition find_editor ::
  "RegExp_ctor \<Rightarrow> toLowerCase_fn \<Rightarrow> jstring \<Rightarrow> search_options \<Rightarrow> search_state
     \<Rightarrow> ((nat \<times> nat) \<times> search_state) option"
  where
  "find_editor RegExp_new toLowerCase searchText options s =
     (if searchText = [] then
        do { s' \<leftarrow> clearSearch RegExp_new s; Some ((0, 0), s') }
      else
        do {
          let s1 = s\<lparr>searchQuery :=
                      \<lparr>caseSensitive = caseSensitive options, regexp = regexp options,
                       wholeWord = wholeWord options, search = searchText\<rparr>\<rparr>;
          let cursor = sel_from s1;
          h \<leftarrow> customSearchHighlight RegExp_new (toString (doc s1))
                 (Some \<lparr>caseSensitive = caseSensitive options, regexp = regexp options,
                        wholeWord = wholeWord options, search = searchText,
                        cursorPos = cursor\<rparr>);
          let s2 = s1\<lparr>highlight := h\<rparr>;
          matches \<leftarrow> countMatches RegExp_new toLowerCase (toString (doc s2)) searchText options;
          currentIndex \<leftarrow>
            getCurrentMatchIndex RegExp_new toLowerCase (toString (doc s2)) (sel_from s2)
              searchText options;
          Some ((matches, currentIndex), s2)
        })"

definition getSearchInfo ::
  "RegExp_ctor \<Rightarrow> toLowerCase_fn \<Rightarrow> search_state \<Rightarrow> (nat \<times> nat) option" where
  "getSearchInfo RegExp_new toLowerCase s =
     (let query = searchQuery s
      in if search query = [] then Some (0, 0)
         else
           do {
             count \<leftarrow> countMatches RegExp_new toLowerCase (toString (doc s)) (search query) query;
             currentIndex \<leftarrow>
               getCurrentMatchIndex RegExp_new toLowerCase (toString (doc s)) (sel_from s)
                 (search query) query;
             Some (count, currentIndex)
           })"

section \<open>Small instances of the runtime functions\<close>

text \<open>
  The runtime functions are parameters. For concrete runs, small instances of them are
  defined here; each is used only at the inputs named with it, where it answers as the
  JavaScript runtime does.

  \<open>toLowerCase_small\<close>: used on strings of ASCII code units and of U+0130 (304). The
  ASCII capitals move up by 32; U+0130 becomes the two code units U+0069 U+0307
  (105, 775); every other code unit is left as it is.
\<close>

definition lower_unit :: "code_unit \<Rightarrow> jstring" where
  "lower_unit u =
     (if u = 304 then [105, 775]
      else if 65 \<le> u \<and> u \<le> 90 then [u + 32]
      else [u])"

definition toLowerCase_small :: toLowerCase_fn where
  "toLowerCase_small s = concat (map lower_unit s)"

text \<open>
  The canonical form of a code unit that a regular expression with the flag \<^verbatim>\<open>i\<close>
  (and without the flag \<^verbatim>\<open>u\<close>) compares: its upper case, when that is one code unit.
  Used on ASCII code units and on U+0130, which is its own upper case.
\<close>

definition canonicalize_small :: "code_unit \<Rightarrow> code_unit" where
  "canonicalize_small u = (if 97 \<le> u \<and> u \<le> 122 then u - 32 else u)"

text \<open>
  The matcher of a pattern without special characters: the literal occurs at the
  index, up to the canonical form when the flag \<^verbatim>\<open>i\<close> is set. The matcher of the
  pattern \<^verbatim>\<open>a*\<close>: the longest run of the letter at the index, which may be empty.
\<close>

definition literal_matcher :: "bool \<Rightarrow> jstring \<Rightarrow> matcher" where
  "literal_matcher ignoreCase lit str i =
     (if ignoreCase then
        (if occurs_at (map canonicalize_small str) (map canonicalize_small lit) i
         then Some (length lit) else None)
      else (if occurs_at str lit i then Some (length lit) else None))"

definition a_star :: "bool \<Rightarrow> matcher" where
  "a_star ignoreCase str i =
     Some (length (takeWhile (\<lambda>c. c = 97 \<or> (ignoreCase \<and> c = 65)) (drop i str)))"

text \<open>
  \<open>RegExp_small\<close>: used at the patterns \<^verbatim>\<open>a*\<close>, \<^verbatim>\<open>i\<close> and \<^verbatim>\<open>(\<close> only. \<^verbatim>\<open>a*\<close> compiles to
  its matcher, a pattern without special characters to the literal matcher, and the
  unbalanced \<^verbatim>\<open>(\<close> is a syntax error. (It also rejects every other pattern with a
  special character, which the engine would not; no statement below looks at such a
  pattern.)
\<close>

definition RegExp_small :: RegExp_ctor where
  "RegExp_small pattern ignoreCase =
     (if pattern = js ''a*'' then Some (a_star ignoreCase)
      else if list_ex regexSpecial pattern then None
      else Some (literal_matcher ignoreCase pattern))"

text \<open>
  One consistent comparison function, by code units; \<^verbatim>\<open>localeCompare\<close> itself depends
  on the locale of the runtime.
\<close>

fun compareUnits :: "jstring \<Rightarrow> jstring \<Rightarrow> int" where
  "compareUnits [] [] = 0"
| "compareUnits [] (y # ys) = - 1"
| "compareUnits (x # xs) [] = 1"
| "compareUnits (x # xs) (y # ys) =
     (if x < y then - 1
      else if y < x then 1
      else compareUnits xs ys)"

section \<open>Lines and transactions\<close>

text \<open>
  The lines of a document are the pieces of its string between the line feeds;
  \<^verbatim>\<open>Array.join('\n')\<close> puts lines together.
\<close>

fun splitLines :: "jstring \<Rightarrow> jstring list" where
  "splitLines [] = [[]]"
| "splitLines (c # cs) =
     (if c = char_LF then [] # splitLines cs
      else (case splitLines cs of [] \<Rightarrow> [[c]] | l # ls \<Rightarrow> (c # l) # ls))"

fun joinLines :: "jstring list \<Rightarrow> jstring" where
  "joinLines [] = []"
| "joinLines [l] = l"
| "joinLines (l # ls) = l @ [char_LF] @ joinLines ls"

datatype error = RangeError

record line =
  line_number :: nat
  line_from :: nat
  line_to :: nat
  line_text :: jstring

text \<open>The offset at which line \<open>n\<close> (counted from 1) starts.\<close>

definition line_start :: "jstring list \<Rightarrow> nat \<Rightarrow> nat" where
  "line_start ls n = sum_list (map (\<lambda>l. length l + 1) (take (n - 1) ls))"

text \<open>\<^verbatim>\<open>doc.line(n)\<close> and \<^verbatim>\<open>doc.lineAt(pos)\<close>, on the string of the document; both throw
  a \<^verbatim>\<open>RangeError\<close> out of range.\<close>

definition doc_line :: "jstring \<Rightarrow> nat \<Rightarrow> error + line" where
  "doc_line d n =
     (let ls = splitLines d
      in if n < 1 \<or> n > length ls then Inl RangeError
         else Inr \<lparr>line_number = n, line_from = line_start ls n,
                   line_to = line_start ls n + length (ls ! (n - 1)),
                   line_text = ls ! (n - 1)\<rparr>)"

definition lineAt :: "jstring \<Rightarrow> nat \<Rightarrow> error + line" where
  "lineAt d pos =
     (if pos > length d then Inl RangeError
      else doc_line d (Suc (length (filter (\<lambda>c. c = char_LF) (take pos d)))))"

definition doc_lines :: "jstring \<Rightarrow> nat" where
  "doc_lines d = length (splitLines d)"

text \<open>\<^verbatim>\<open>state.doc.line(i)\<close> for each \<open>i\<close> of a loop over line numbers.\<close>

fun lines_of :: "jstring \<Rightarrow> nat list \<Rightarrow> error + line list" where
  "lines_of d [] = Inr []"
| "lines_of d (i # is) =
     (case doc_line d i of
        Inl e \<Rightarrow> Inl e
      | Inr l \<Rightarrow> (case lines_of d is of Inl e \<Rightarrow> Inl e | Inr ls \<Rightarrow> Inr (l # ls)))"

text \<open>
  A transaction specification as the operations pass it to \<^verbatim>\<open>view.dispatch\<close>: changes
  \<^verbatim>\<open>{from, to, insert}\<close> whose offsets refer to the document before the transaction, and
  the new selection \<^verbatim>\<open>{anchor, head}\<close>, computed with JavaScript numbers, which may go
  below zero.
\<close>

type_synonym change = "nat \<times> nat \<times> jstring"

record transaction =
  changes :: "change list"
  selection :: "int \<times> int"

text \<open>
  The string of the document after the changes. The inserted text becomes document
  text: its line breaks are normalised, whatever the operation wrote. The changes are
  ascending and do not overlap; applying the last one first keeps the offsets of the
  earlier ones valid.
\<close>

definition applyChanges :: "jstring \<Rightarrow> change list \<Rightarrow> jstring" where
  "applyChanges d cs =
     foldr (\<lambda>(from, to, ins) acc. take from acc @ normalizeBreaks ins @ drop to acc) cs d"

text \<open>
  \<^verbatim>\<open>view.dispatch\<close>: the new document and the new selection. A selection that does not
  lie inside the new document makes the dispatch throw a \<^verbatim>\<open>RangeError\<close>, and the state
  stays as it was.
\<close>

definition dispatch :: "editor_state \<Rightarrow> transaction \<Rightarrow> error + editor_state" where
  "dispatch s tr =
     (let d = applyChanges (toString (doc s)) (changes tr); (a, h) = selection tr
      in if 0 \<le> a \<and> a \<le> int (length d) \<and> 0 \<le> h \<and> h \<le> int (length d)
         then Inr \<lparr>doc = Text_of d, anchor = nat a, head = nat h\<rparr>
         else Inl RangeError)"

text \<open>An operation followed by the dispatch it asks for, if any.\<close>

definition run :: "(editor_state \<Rightarrow> error + transaction option) \<Rightarrow> editor_state \<Rightarrow> error + editor_state"
  where
  "run operation s =
     (case operation s of
        Inl e \<Rightarrow> Inl e
      | Inr None \<Rightarrow> Inr s
      | Inr (Some tr) \<Rightarrow> dispatch s tr)"

section \<open>Outdenting\<close>

definition startsWith :: "jstring \<Rightarrow> jstring \<Rightarrow> bool" where
  "startsWith s p = (take (length p) s = p)"

abbreviation char_TAB :: code_unit where
  "char_TAB \<equiv> 9"

text \<open>The body of the loop of \<^verbatim>\<open>outdentSelection\<close> for one line: the change pushed, if
  any, and the number of characters it removes.\<close>

definition outdentLine :: "line \<Rightarrow> (change \<times> nat) option" where
  "outdentLine l =
     (if startsWith (line_text l) (js ''  '') then Some ((line_from l, line_from l + 2, []), 2)
      else if startsWith (line_text l) [char_TAB] then Some ((line_from l, line_from l + 1, []), 1)
      else if startsWith (line_text l) (js '' '') then Some ((line_from l, line_from l + 1, []), 1)
      else None)"

fun outdentLoop :: "line list \<Rightarrow> change list \<times> nat \<Rightarrow> change list \<times> nat" where
  "outdentLoop [] acc = acc"
| "outdentLoop (l # ls) (chs, totalRemoved) =
     (case outdentLine l of
        None \<Rightarrow> outdentLoop ls (chs, totalRemoved)
      | Some (c, n) \<Rightarrow> outdentLoop ls (chs @ [c], totalRemoved + n))"

definition outdentSelection :: "editor_state \<Rightarrow> error + transaction option" where
  "outdentSelection s =
     (case lineAt (toString (doc s)) (sel_from s) of
        Inl e \<Rightarrow> Inl e
      | Inr startLine \<Rightarrow>
          (case lineAt (toString (doc s)) (sel_to s) of
             Inl e \<Rightarrow> Inl e
           | Inr endLine \<Rightarrow>
               (case lines_of (toString (doc s))
                       [line_number startLine ..< Suc (line_number endLine)] of
                  Inl e \<Rightarrow> Inl e
                | Inr ls \<Rightarrow>
                    (case outdentLoop ls ([], 0) of (chs, totalRemoved) \<Rightarrow>
                       if length chs > 0 then
                         Inr (Some \<lparr>changes = chs,
                                     selection =
                                       (max (int (line_from startLine))
                                          (int (sel_from s) - int totalRemoved),
                                        int (sel_to s) - int totalRemoved)\<rparr>)
                       else Inr None))))"

section \<open>Toggling a line comment\<close>

text \<open>White space as \<^verbatim>\<open>\s\<close> and \<^verbatim>\<open>trim\<close> see it: the white-space and line-terminator
  code units of the language.\<close>

definition is_space :: "code_unit \<Rightarrow> bool" where
  "is_space c =
     (c \<in> set [9, 10, 11, 12, 13, 32, 160, 5760, 8232, 8233, 8239, 8287, 12288, 65279]
      \<or> (8192 \<le> c \<and> c \<le> 8202))"

definition trim :: "jstring \<Rightarrow> jstring" where
  "trim s = rev (dropWhile is_space (rev (dropWhile is_space s)))"

text \<open>\<^verbatim>\<open>String.prototype.substring\<close>: both arguments are clamped to the string, and
  swapped when the first is the larger.\<close>

definition substring :: "jstring \<Rightarrow> int \<Rightarrow> int \<Rightarrow> jstring" where
  "substring s a b =
     (let n = int (length s); a' = max 0 (min a n); b' = max 0 (min b n);
          lo = min a' b'; hi = max a' b'
      in take (nat (hi - lo)) (drop (nat lo) s))"

definition substring_from :: "jstring \<Rightarrow> int \<Rightarrow> jstring" where
  "substring_from s a = substring s a (int (length s))"

text \<open>\<^verbatim>\<open>replace(/^\s/, '')\<close>.\<close>

fun dropLeadingSpace :: "jstring \<Rightarrow> jstring" where
  "dropLeadingSpace [] = []"
| "dropLeadingSpace (c # cs) = (if is_space c then cs else c # cs)"

definition getCommentSyntax :: "toLowerCase_fn \<Rightarrow> jstring option \<Rightarrow> jstring" where
  "getCommentSyntax toLowerCase currentLanguage =
     (let lang = (case currentLanguage of None \<Rightarrow> [] | Some l \<Rightarrow> toLowerCase l)
      in if lang \<in> set (map js [''javascript'', ''typescript'', ''jsx'', ''tsx'', ''c'', ''cpp'',
                                  ''java'', ''rust'', ''go'', ''swift'', ''kotlin'', ''csharp'',
                                  ''php''])
         then js ''//''
         else if lang \<in> set (map js [''python'', ''ruby'', ''bash'', ''shell'', ''yaml'', ''yml'',
                                       ''perl'', ''r''])
         then js ''#''
         else if lang \<in> set (map js [''html'', ''xml'']) then js ''<!--''
         else if lang \<in> set (map js [''css'', ''scss'', ''sass'', ''less'']) then js ''/*''
         else if lang \<in> set (map js [''sql'']) then js ''--''
         else js ''//'')"

text \<open>The new text of the line when it is uncommented, and when it is commented.\<close>

definition uncommentText :: "jstring \<Rightarrow> jstring \<Rightarrow> jstring" where
  "uncommentText commentChar lineText =
     (let commentIndex = (case indexOf lineText commentChar 0 of None \<Rightarrow> - 1 | Some k \<Rightarrow> int k)
      in substring lineText 0 commentIndex
           @ dropLeadingSpace
               (substring_from lineText (commentIndex + int (length commentChar))))"

definition commentText :: "jstring \<Rightarrow> jstring \<Rightarrow> jstring" where
  "commentText commentChar lineText =
     (let indent = takeWhile is_space lineText
      in indent @ commentChar @ js '' '' @ substring_from lineText (int (length indent)))"

definition toggleLineComment ::
  "toLowerCase_fn \<Rightarrow> jstring option \<Rightarrow> editor_state \<Rightarrow> error + transaction option" where
  "toggleLineComment toLowerCase currentLanguage s =
     (case lineAt (toString (doc s)) (sel_from s) of
        Inl e \<Rightarrow> Inl e
      | Inr l \<Rightarrow>
          (let commentChar = getCommentSyntax toLowerCase currentLanguage
           in if commentChar = [] then Inr None
              else if startsWith (trim (line_text l)) commentChar then
                Inr (Some \<lparr>changes = [(line_from l, line_to l, uncommentText commentChar (line_text l))],
                            selection =
                              (int (sel_from s) - int (length commentChar) - 1,
                               int (sel_from s) - int (length commentChar) - 1)\<rparr>)
              else
                Inr (Some \<lparr>changes = [(line_from l, line_to l, commentText commentChar (line_text l))],
                            selection =
                              (int (sel_from s) + int (length commentChar) + 1,
                               int (sel_from s) + int (length commentChar) + 1)\<rparr>)))"

section \<open>Sorting lines\<close>

text \<open>
  \<^verbatim>\<open>Array.prototype.sort\<close> with a comparison function is stable. Its result is computed
  here by insertion: an element goes before the first element it does not compare
  greater than. \<^verbatim>\<open>localeCompare\<close> belongs to the runtime and is a parameter.
\<close>

fun insert_cmp :: "('a \<Rightarrow> 'a \<Rightarrow> int) \<Rightarrow> 'a \<Rightarrow> 'a list \<Rightarrow> 'a list" where
  "insert_cmp cmp x [] = [x]"
| "insert_cmp cmp x (y # ys) = (if cmp x y \<le> 0 then x # y # ys else y # insert_cmp cmp x ys)"

definition sort_cmp :: "('a \<Rightarrow> 'a \<Rightarrow> int) \<Rightarrow> 'a list \<Rightarrow> 'a list" where
  "sort_cmp cmp xs = foldr (insert_cmp cmp) xs []"

text \<open>\<^verbatim>\<open>lines.some((line, index) => line !== sortedLines[index])\<close>, on two arrays of the
  same length.\<close>

definition hasChanged :: "jstring list \<Rightarrow> jstring list \<Rightarrow> bool" where
  "hasChanged ls sortedLines = list_ex (\<lambda>(l, l'). l \<noteq> l') (zip ls sortedLines)"

text \<open>The common body of \<^verbatim>\<open>sortLinesAscending\<close> and \<^verbatim>\<open>sortLinesDescending\<close>, which
  differ in the comparison function only.\<close>

definition sortLinesWith ::
  "(jstring \<Rightarrow> jstring \<Rightarrow> int) \<Rightarrow> editor_state \<Rightarrow> error + transaction option" where
  "sortLinesWith cmp s =
     (case (if sel_empty s then Inr (1, doc_lines (toString (doc s)))
            else (case lineAt (toString (doc s)) (sel_from s) of
                    Inl e \<Rightarrow> Inl e
                  | Inr l1 \<Rightarrow> (case lineAt (toString (doc s)) (sel_to s) of
                                 Inl e \<Rightarrow> Inl e
                               | Inr l2 \<Rightarrow> Inr (line_number l1, line_number l2)))) of
        Inl e \<Rightarrow> Inl e
      | Inr (startLine, endLine) \<Rightarrow>
          (case lines_of (toString (doc s)) [startLine ..< Suc endLine] of
             Inl e \<Rightarrow> Inl e
           | Inr ls \<Rightarrow>
               (let lines = map line_text ls;
                    sortedLines = sort_cmp cmp lines
                in if \<not> hasChanged lines sortedLines then Inr None
                   else
                     (case doc_line (toString (doc s)) startLine of
                        Inl e \<Rightarrow> Inl e
                      | Inr l1 \<Rightarrow>
                          (case doc_line (toString (doc s)) endLine of
                             Inl e \<Rightarrow> Inl e
                           | Inr l2 \<Rightarrow>
                               (let fromPos = line_from l1; toPos = line_to l2;
                                    sortedText = joinLines sortedLines
                                in Inr (Some \<lparr>changes = [(fromPos, toPos, sortedText)],
                                               selection =
                                                 (int fromPos,
                                                  int fromPos + int (length sortedText))\<rparr>)))))))"

definition sortLinesAscending ::
  "(jstring \<Rightarrow> jstring \<Rightarrow> int) \<Rightarrow> editor_state \<Rightarrow> error + transaction option" where
  "sortLinesAscending localeCompare s = sortLinesWith (\<lambda>a b. localeCompare a b) s"

definition sortLinesDescending ::
  "(jstring \<Rightarrow> jstring \<Rightarrow> int) \<Rightarrow> editor_state \<Rightarrow> error + transaction option" where
  "sortLinesDescending localeCompare s = sortLinesWith (\<lambda>a b. localeCompare b a) s"

section \<open>Converting line endings\<close>

text \<open>\<^verbatim>\<open>replace(/\r\n/g, '\n')\<close>, \<^verbatim>\<open>replace(/\r/g, '\n')\<close> and \<^verbatim>\<open>replace(/\n/g, '\r\n')\<close>.\<close>

fun replaceCRLF :: "jstring \<Rightarrow> jstring" where
  "replaceCRLF [] = []"
| "replaceCRLF [c] = [c]"
| "replaceCRLF (c # d # cs) =
     (if c = char_CR \<and> d = char_LF then char_LF # replaceCRLF cs else c # replaceCRLF (d # cs))"

definition replaceCR :: "jstring \<Rightarrow> jstring" where
  "replaceCR s = map (\<lambda>c. if c = char_CR then char_LF else c) s"

definition expandLF :: "jstring \<Rightarrow> jstring" where
  "expandLF s = concat (map (\<lambda>c. if c = char_LF then [char_CR, char_LF] else [c]) s)"

definition convertToLF :: "editor_state \<Rightarrow> error + transaction option" where
  "convertToLF s =
     (let content = toString (doc s); convertedContent = replaceCR (replaceCRLF content)
      in if content = convertedContent then Inr None
         else Inr (Some \<lparr>changes = [(0, length (toString (doc s)), convertedContent)],
                         selection = (int (anchor s), int (head s))\<rparr>))"

definition convertToCRLF :: "editor_state \<Rightarrow> error + transaction option" where
  "convertToCRLF s =
     (let content = toString (doc s); normalizedContent = replaceCR (replaceCRLF content);
          convertedContent = expandLF normalizedContent
      in if content = convertedContent then Inr None
         else Inr (Some \<lparr>changes = [(0, length (toString (doc s)), convertedContent)],
                         selection = (int (anchor s), int (head s))\<rparr>))"

section \<open>Line-ending detection\<close>

text \<open>
  The counting loop of \<^verbatim>\<open>detectLineEnding\<close>: the index \<^verbatim>\<open>i\<close> walks over the content; a
  carriage return followed by a line feed counts once as CRLF and both characters are
  skipped, a carriage return alone counts as CR, a line feed as LF. The triple is
  \<^verbatim>\<open>(crlfCount, crCount, lfCount)\<close>.
\<close>

fun countEndings :: "jstring \<Rightarrow> nat \<times> nat \<times> nat \<Rightarrow> nat \<times> nat \<times> nat" where
  "countEndings [] acc = acc"
| "countEndings (c # cs) (crlf, cr, lf) =
     (if c = char_CR then
        (case cs of
           [] \<Rightarrow> countEndings [] (crlf, cr + 1, lf)
         | d # ds \<Rightarrow>
             if d = char_LF then countEndings ds (crlf + 1, cr, lf)
             else countEndings cs (crlf, cr + 1, lf))
      else if c = char_LF then countEndings cs (crlf, cr, lf + 1)
      else countEndings cs (crlf, cr, lf))"

text \<open>
  The body of \<^verbatim>\<open>detectLineEnding\<close> after it has read the content. The percentages are
  JavaScript numbers; they are modelled as exact reals. The test for \<^verbatim>\<open>MIXED\<close> takes
  the minimum of all three percentages, also of a terminator type that does not occur.
\<close>

definition classifyLineEndings :: "jstring \<Rightarrow> jstring" where
  "classifyLineEndings content =
     (let hasCRLF = includes_str content [char_CR, char_LF];
          hasCR = (includes_str content [char_CR] \<and> \<not> includes_str content [char_CR, char_LF]);
          hasLF = (includes_str content [char_LF] \<and> \<not> includes_str content [char_CR, char_LF])
      in if \<not> hasCRLF \<and> \<not> hasCR \<and> \<not> hasLF then js ''LF''
         else
           (case countEndings content (0, 0, 0) of (crlfCount, crCount, lfCount) \<Rightarrow>
              let total = crlfCount + crCount + lfCount in
              if total = 0 then js ''LF''
              else
                let crlfPercent = (real crlfCount / real total) * 100;
                    crPercent = (real crCount / real total) * 100;
                    lfPercent = (real lfCount / real total) * 100;
                    typesPresent =
                      (if crlfCount > 0 then 1 else 0) + (if crCount > 0 then 1 else 0)
                        + (if lfCount > 0 then (1::nat) else 0)
                in if typesPresent > 1 \<and> min crlfPercent (min crPercent lfPercent) > 10
                   then js ''MIXED''
                   else if crlfCount \<ge> crCount \<and> crlfCount \<ge> lfCount then js ''CRLF''
                   else if crCount \<ge> lfCount then js ''CR''
                   else js ''LF''))"

text \<open>\<^verbatim>\<open>detectLineEnding\<close>: the content is \<^verbatim>\<open>this.view.state.doc.toString()\<close>.\<close>

definition detectLineEnding :: "'a editor_state_scheme \<Rightarrow> jstring" where
  "detectLineEnding s = classifyLineEndings (toString (doc s))"

section \<open>Notions for the statements and proofs about documents\<close>

text \<open>
  The number of line feeds of a string; the lines before a range, each with its line
  feed behind it, and the lines after a range, each with its line feed in front; a
  list of lines none of which holds a line feed.
\<close>

definition countLF :: "jstring \<Rightarrow> nat" where
  "countLF s = length (filter (\<lambda>c. c = char_LF) s)"

definition pre_str :: "jstring list \<Rightarrow> jstring" where
  "pre_str ls = concat (map (\<lambda>l. l @ [char_LF]) ls)"

definition suf_str :: "jstring list \<Rightarrow> jstring" where
  "suf_str ls = concat (map (\<lambda>l. char_LF # l) ls)"

definition LF_free :: "jstring list \<Rightarrow> bool" where
  "LF_free ls = (\<forall>l\<in>set ls. char_LF \<notin> set l)"

text \<open>
  The record \<^verbatim>\<open>doc.line(n)\<close> returns for a line number in range, and the texts of the
  lines \<open>s\<close> to \<open>e\<close>.
\<close>

definition mk_line :: "jstring \<Rightarrow> nat \<Rightarrow> line" where
  "mk_line d n =
     \<lparr>line_number = n, line_from = line_start (splitLines d) n,
      line_to = line_start (splitLines d) n + length (splitLines d ! (n - 1)),
      line_text = splitLines d ! (n - 1)\<rparr>"

definition range_lines :: "jstring \<Rightarrow> nat \<Rightarrow> nat \<Rightarrow> jstring list" where
  "range_lines d s e = take (Suc e - s) (drop (s - 1) (splitLines d))"

text \<open>A state whose selection lies inside its document, as the editor keeps it.\<close>

definition valid_state :: "editor_state \<Rightarrow> bool" where
  "valid_state s =
     (anchor s \<le> length (toString (doc s)) \<and> head s \<le> length (toString (doc s)))"

text \<open>
  The line range the sort operations resolve: the whole document for an empty
  selection, else the lines of the two ends of the selection.
\<close>

definition start_line :: "editor_state \<Rightarrow> nat" where
  "start_line st =
     (if sel_empty st then 1 else Suc (countLF (take (sel_from st) (toString (doc st)))))"

definition end_line :: "editor_state \<Rightarrow> nat" where
  "end_line st =
     (if sel_empty st then doc_lines (toString (doc st))
      else Suc (countLF (take (sel_to st) (toString (doc st)))))"

section \<open>Properties of documents\<close>

lemma normalizeBreaks_no_CR: "char_CR \<notin> set (normalizeBreaks s)"
  by (induction s rule: normalizeBreaks.induct) (auto split: list.splits)

lemma toString_no_CR: "char_CR \<notin> set (toString d)"
  using toString[of d] by simp

lemma toString_Text_of: "toString (Text_of s) = normalizeBreaks s"
  by (simp add: Text_of_def Abs_Text_inverse normalizeBreaks_no_CR)

lemma normalizeBreaks_id: "char_CR \<notin> set s \<Longrightarrow> normalizeBreaks s = s"
  by (induction s) auto

lemma toString_Text_of_id: "char_CR \<notin> set s \<Longrightarrow> toString (Text_of s) = s"
  by (simp add: toString_Text_of normalizeBreaks_id)

lemma Text_of_toString: "Text_of (toString d) = d"
  by (simp add: Text_of_def normalizeBreaks_id toString_no_CR toString_inverse)

section \<open>Properties of line-ending detection\<close>

lemma not_includes_CR:
  assumes "char_CR \<notin> set content"
  shows "\<not> includes_str content [char_CR, char_LF]" and "\<not> includes_str content [char_CR]"
proof -
  have no: "\<not> occurs_at content (char_CR # rest) k" for rest k
  proof
    assume "occurs_at content (char_CR # rest) k"
    then have "char_CR \<in> set (take (length (char_CR # rest)) (drop k content))"
      unfolding occurs_at_def by (metis list.set_intros(1))
    with assms show False by (auto dest: in_set_takeD in_set_dropD)
  qed
  show "\<not> includes_str content [char_CR, char_LF]"
    using no[of "[char_LF]"] by (auto simp: includes_str_def indexOf_def find_None_iff)
  show "\<not> includes_str content [char_CR]"
    using no[of "[]"] by (auto simp: includes_str_def indexOf_def find_None_iff)
qed

lemma countEndings_no_CR:
  "char_CR \<notin> set content \<Longrightarrow>
     countEndings content (crlf, cr, lf) = (crlf, cr, lf + length (filter (\<lambda>c. c = char_LF) content))"
  by (induction content arbitrary: lf) auto

text \<open>The string of a document holds no carriage return, so whatever the document,
  the answer is \<^verbatim>\<open>LF\<close>.\<close>

lemma detectLineEnding_always_LF: "detectLineEnding s = js ''LF''"
proof -
  let ?c = "toString (doc s)"
  have cr: "char_CR \<notin> set ?c" by (rule toString_no_CR)
  note inc = not_includes_CR[OF cr]
  have cnt: "countEndings ?c (0, 0, 0) = (0, 0, length (filter (\<lambda>c. c = char_LF) ?c))"
    using countEndings_no_CR[OF cr, of 0 0 0] by simp
  show ?thesis
    unfolding detectLineEnding_def classifyLineEndings_def Let_def
    by (simp add: inc cnt)
qed

text \<open>On a string that does hold CR LF and LF but no lone CR, the body does not answer
  \<^verbatim>\<open>MIXED\<close> either: the minimum over all three percentages is 0 as soon as one type
  is absent.\<close>

lemma classifyLineEndings_without_CR_not_MIXED:
  assumes "countEndings content (0, 0, 0) = (crlfCount, 0, lfCount)"
  shows "classifyLineEndings content \<noteq> js ''MIXED''"
  unfolding classifyLineEndings_def Let_def using assms by (simp add: min_def js_def)

lemma classifyLineEndings_two_crlf_one_lf:
  "classifyLineEndings (js ''a'' @ [char_CR, char_LF] @ js ''b'' @ [char_CR, char_LF] @ js ''c'' @ [char_LF])
     = js ''CRLF''"
  by code_simp

text \<open>
  Claim C1. The editor made with the content \<open>a\r\nb\r\nc\n\<close> (two CR LF and one LF)
  holds the document \<open>a\nb\nc\n\<close>, and \<^verbatim>\<open>detectLineEnding\<close> answers \<^verbatim>\<open>LF\<close> on it, not
  \<^verbatim>\<open>MIXED\<close>. On the content itself, the body of the function would answer \<^verbatim>\<open>CRLF\<close>.
\<close>

theorem detectLineEnding_two_crlf_one_lf:
  "toString (Text_of (js ''a'' @ [char_CR, char_LF] @ js ''b'' @ [char_CR, char_LF] @ js ''c'' @ [char_LF]))
     = js ''a'' @ [char_LF] @ js ''b'' @ [char_LF] @ js ''c'' @ [char_LF]
   \<and> detectLineEnding
       \<lparr>doc = Text_of (js ''a'' @ [char_CR, char_LF] @ js ''b'' @ [char_CR, char_LF] @ js ''c'' @ [char_LF]),
        anchor = 0, head = 0\<rparr> = js ''LF''
   \<and> classifyLineEndings
       (js ''a'' @ [char_CR, char_LF] @ js ''b'' @ [char_CR, char_LF] @ js ''c'' @ [char_LF])
     = js ''CRLF''"
proof -
  have "normalizeBreaks (js ''a'' @ [char_CR, char_LF] @ js ''b'' @ [char_CR, char_LF] @ js ''c'' @ [char_LF])
     = js ''a'' @ [char_LF] @ js ''b'' @ [char_LF] @ js ''c'' @ [char_LF]"
    by code_simp
  then have "toString (Text_of (js ''a'' @ [char_CR, char_LF] @ js ''b'' @ [char_CR, char_LF] @ js ''c'' @ [char_LF]))
     = js ''a'' @ [char_LF] @ js ''b'' @ [char_LF] @ js ''c'' @ [char_LF]"
    by (simp only: toString_Text_of)
  with detectLineEnding_always_LF classifyLineEndings_two_crlf_one_lf show ?thesis by blast
qed

section \<open>Properties of the search\<close>

subsection \<open>The empty search text\<close>

text \<open>
  Claim C10. \<^verbatim>\<open>find\<close> with the empty string returns count 0 and current index 0; the
  stored query becomes the empty query, no decoration is left, and the document, like
  the selection, is as before.
\<close>

theorem find_empty_text_clears_search:
  "find_editor RegExp_new toLowerCase [] options s =
     Some ((0, 0), s\<lparr>searchQuery := emptyQuery, highlight := []\<rparr>)
   \<and> search emptyQuery = []
   \<and> doc (s\<lparr>searchQuery := emptyQuery, highlight := []\<rparr>) = doc s"
  by (simp add: find_editor_def clearSearch_def customSearchHighlight_def emptyQuery_def)

subsection \<open>Invalid patterns\<close>

text \<open>
  Claim C3. When the constructor rejects the search text as a pattern and the search is
  in regexp mode, \<^verbatim>\<open>find\<close> returns count 0 and current index 0 (it returns: the result
  is not \<open>None\<close>, and no error value exists in its result type), the document is
  untouched, and the highlight field holds no decoration, whatever the cursor.
\<close>

theorem find_invalid_regex_no_matches:
  assumes "RegExp_new searchText (\<not> caseSensitive options) = None" and "regexp options"
  shows "(\<exists>s'. find_editor RegExp_new toLowerCase searchText options s = Some ((0, 0), s')
            \<and> highlight s' = [] \<and> doc s' = doc s)
         \<and> customSearchHighlight RegExp_new str
              (Some \<lparr>caseSensitive = caseSensitive options, regexp = True,
                     wholeWord = wholeWord options, search = searchText, cursorPos = c\<rparr>)
             = Some []"
  using assms
  by (simp add: find_editor_def clearSearch_def customSearchHighlight_def buildRegex_def
      countMatches_def getCurrentMatchIndex_def)

lemma paren_special: "list_ex regexSpecial (js ''('')" and paren_not_a_star: "js ''('' \<noteq> js ''a*''"
  by (simp_all add: js_def regexSpecial_def)

theorem find_invalid_regex_no_matches_witness:
  "RegExp_small (js ''('') (\<not> caseSensitive \<lparr>caseSensitive = False, regexp = True, wholeWord = False\<rparr>)
     = None
   \<and> regexp \<lparr>caseSensitive = False, regexp = True, wholeWord = False\<rparr>
   \<and> (\<exists>s'. find_editor RegExp_small toLowerCase_small (js ''('')
               \<lparr>caseSensitive = False, regexp = True, wholeWord = False\<rparr>
               \<lparr>doc = Text_of (js ''f(x)''), anchor = 0, head = 0, searchQuery = emptyQuery,
                highlight = []\<rparr>
             = Some ((0, 0), s')
           \<and> highlight s' = [] \<and> doc s' = Text_of (js ''f(x)''))
   \<and> customSearchHighlight RegExp_small (js ''f(x)'')
        (Some \<lparr>caseSensitive = False, regexp = True, wholeWord = False, search = js ''('',
               cursorPos = 2\<rparr>) = Some []"
proof -
  have invalid: "RegExp_small (js ''('')
      (\<not> caseSensitive \<lparr>caseSensitive = False, regexp = True, wholeWord = False\<rparr>) = None"
    by (simp add: RegExp_small_def paren_special paren_not_a_star)
  have mode: "regexp \<lparr>caseSensitive = False, regexp = True, wholeWord = False\<rparr>" by simp
  from find_invalid_regex_no_matches
      [where RegExp_new = RegExp_small and searchText = "js ''(''"
         and toLowerCase = toLowerCase_small
         and options = "\<lparr>caseSensitive = False, regexp = True, wholeWord = False\<rparr>"
         and s = "\<lparr>doc = Text_of (js ''f(x)''), anchor = 0, head = 0, searchQuery = emptyQuery,
                   highlight = []\<rparr>"
         and str = "js ''f(x)''" and c = 2]
  show ?thesis using invalid mode by simp
qed

subsection \<open>Patterns that match the empty string\<close>

lemma execLoop_returns_not_stuck:
  assumes "execLoop m0 str0 i0 acc0 = Some r0"
  shows "regexSearch m0 str0 i0 \<noteq> Some (i0, 0)"
proof (rule execLoop.raw_induct
    [where P = "\<lambda>m s i a r. regexSearch m s i \<noteq> Some (i, 0)", OF _ assms], goal_cases)
  case (1 loop m s i a r)
  show ?case
  proof
    assume stuck: "regexSearch m s i = Some (i, 0)"
    with 1(2) have "loop m s i (a @ [(i, i)]) = Some r" by simp
    from 1(1)[OF this] stuck show False by simp
  qed
qed

text \<open>An empty match at \<^verbatim>\<open>lastIndex\<close> leaves \<^verbatim>\<open>lastIndex\<close> where it is: the loop finds the
  same match again and never returns.\<close>

lemma execLoop_stuck:
  "regexSearch m str i = Some (i, 0) \<Longrightarrow> execLoop m str i acc = None"
  using execLoop_returns_not_stuck[of m str i acc] by (cases "execLoop m str i acc") auto

lemma a_star_stuck: "regexSearch (a_star ic) (js ''b'') 0 = Some (0, 0)"
  by (simp add: regexSearch.simps a_star_def js_def)

lemma matchCount_a_star: "matchCount (a_star True) (js ''b'') 0 = 2"
  by (simp add: matchCount.simps regexSearch.simps a_star_def js_def)

lemma doc_b: "toString (Text_of (js ''b'')) = js ''b''"
  by (simp add: toString_Text_of js_def)

lemma a_star_pattern: "js ''a*'' \<noteq> []"
  by (simp add: js_def)

lemma highlight_a_star_diverges:
  "customSearchHighlight RegExp_small (js ''b'')
     (Some \<lparr>caseSensitive = False, regexp = True, wholeWord = False, search = js ''a*'',
            cursorPos = 0\<rparr>) = None"
  by (simp add: customSearchHighlight_def buildRegex_def RegExp_small_def a_star_pattern
      execLoop_stuck[OF a_star_stuck])

text \<open>
  Claim C2. The pattern \<^verbatim>\<open>a*\<close> is valid and matches the empty string at index 0 of the
  document \<^verbatim>\<open>b\<close>. The recomputation of the highlight, \<^verbatim>\<open>find\<close> and \<^verbatim>\<open>getSearchInfo\<close> do
  not return on it: their loops around \<^verbatim>\<open>regex.exec\<close> never advance. (The count, taken
  with \<^verbatim>\<open>content.match\<close>, does return: 2.)
\<close>

theorem find_regex_empty_match_diverges:
  "customSearchHighlight RegExp_small (js ''b'')
     (Some \<lparr>caseSensitive = False, regexp = True, wholeWord = False, search = js ''a*'',
            cursorPos = 0\<rparr>) = None
   \<and> find_editor RegExp_small toLowerCase (js ''a*'')
       \<lparr>caseSensitive = False, regexp = True, wholeWord = False\<rparr>
       \<lparr>doc = Text_of (js ''b''), anchor = 0, head = 0, searchQuery = emptyQuery, highlight = []\<rparr>
     = None
   \<and> countMatches RegExp_small toLowerCase (js ''b'') (js ''a*'')
       \<lparr>caseSensitive = False, regexp = True, wholeWord = False\<rparr> = Some 2
   \<and> getSearchInfo RegExp_small toLowerCase
       \<lparr>doc = Text_of (js ''b''), anchor = 0, head = 0,
        searchQuery = \<lparr>caseSensitive = False, regexp = True, wholeWord = False, search = js ''a*''\<rparr>,
        highlight = []\<rparr> = None"
proof -
  have "find_editor RegExp_small toLowerCase (js ''a*'')
       \<lparr>caseSensitive = False, regexp = True, wholeWord = False\<rparr>
       \<lparr>doc = Text_of (js ''b''), anchor = 0, head = 0, searchQuery = emptyQuery, highlight = []\<rparr>
     = None"
    by (simp add: find_editor_def sel_from_def doc_b a_star_pattern highlight_a_star_diverges)
  moreover have "countMatches RegExp_small toLowerCase (js ''b'') (js ''a*'')
       \<lparr>caseSensitive = False, regexp = True, wholeWord = False\<rparr> = Some 2"
    by (simp add: countMatches_def RegExp_small_def a_star_pattern matchCount_a_star)
  moreover have "getSearchInfo RegExp_small toLowerCase
       \<lparr>doc = Text_of (js ''b''), anchor = 0, head = 0,
        searchQuery = \<lparr>caseSensitive = False, regexp = True, wholeWord = False, search = js ''a*''\<rparr>,
        highlight = []\<rparr> = None"
    by (simp add: getSearchInfo_def countMatches_def getCurrentMatchIndex_def RegExp_small_def
        doc_b a_star_pattern matchCount_a_star execLoop_stuck[OF a_star_stuck])
  ultimately show ?thesis using highlight_a_star_diverges by blast
qed

subsection \<open>The current match\<close>

lemma matchIndexFrom_ge: "i \<le> matchIndexFrom i ps len c"
  by (induction ps arbitrary: i) (auto simp: Let_def intro: le_trans[OF _ Suc_leD])

lemma matchIndexFrom_le: "matchIndexFrom i ps len c \<le> i + length ps"
proof (induction ps arbitrary: i)
  case Nil
  show ?case by simp
next
  case (Cons p ps)
  show ?case using Cons[of "Suc i"] by (simp add: Let_def)
qed

lemma matchIndexFrom_pos: "ps \<noteq> [] \<Longrightarrow> i < matchIndexFrom i ps len c"
  using matchIndexFrom_ge[of "Suc i"] by (cases ps) (auto simp: Let_def Suc_le_eq)

lemma matchIndexFrom_mono:
  "c \<le> c' \<Longrightarrow> matchIndexFrom i ps len c \<le> matchIndexFrom i ps len c'"
proof (induction ps arbitrary: i)
  case Nil
  then show ?case by simp
next
  case (Cons p ps)
  then show ?case
    using matchIndexFrom_ge[of "Suc i" ps len c']
    by (auto simp: Let_def)
qed

lemma matchIndexFrom_past:
  "\<forall>p\<in>set ps. p + len < c \<Longrightarrow> matchIndexFrom i ps len c = i + length ps"
  by (induction ps arbitrary: i) (auto simp: Let_def)

text \<open>
  Claim C5. For a non-empty list of match positions, moving the cursor forward never
  decreases the current-match index; the index lies between 1 and the number of
  matches; and once the cursor is past the end of every match the index is the number
  of matches.
\<close>

theorem currentMatchIndex_monotone:
  assumes "ps \<noteq> []" and "c < c'"
  shows "currentMatchIndex ps len c \<le> currentMatchIndex ps len c'
         \<and> 1 \<le> currentMatchIndex ps len c
         \<and> currentMatchIndex ps len c' \<le> length ps
         \<and> ((\<forall>p\<in>set ps. p + len < c') \<longrightarrow> currentMatchIndex ps len c' = length ps)"
  unfolding currentMatchIndex_def
  using assms matchIndexFrom_mono[of c c' 0 ps len] matchIndexFrom_pos[of ps 0 len c]
    matchIndexFrom_le[of 0 ps len c'] matchIndexFrom_past[of ps len c' 0]
  by auto

theorem currentMatchIndex_monotone_witness:
  "[3, 12, 17] \<noteq> ([] :: nat list) \<and> (5::nat) < 16
   \<and> currentMatchIndex [3, 12, 17] 3 5 = 1 \<and> currentMatchIndex [3, 12, 17] 3 16 = 3
   \<and> currentMatchIndex [3, 12, 17] 3 5 \<le> currentMatchIndex [3, 12, 17] 3 16
   \<and> currentMatchIndex [3, 12, 17] 3 16 \<le> length [3, 12, 17 :: nat]"
  using currentMatchIndex_monotone[of "[3, 12, 17]" 5 16 3]
  by (simp add: currentMatchIndex_def)

subsection \<open>Literal search without case\<close>

lemma lower_dotted_I: "toLowerCase_small [304] = [105, 775]" and lower_i: "toLowerCase_small (js ''i'') = [105]"
  and js_i: "js ''i'' = [105]"
  by code_simp+

lemma scan_dotted_I: "indexOfLoop [105, 775] [105] 0 [] = Some [0]"
  by (simp add: indexOfLoop.simps indexOf_def occurs_at_def upt_rec)

lemma regex_i: "RegExp_small (escapeRegExp [105]) True = Some (literal_matcher True [105])"
  by (simp add: RegExp_small_def escapeRegExp_def regexSpecial_def js_def)

lemma no_match_dotted_I: "regexSearch (literal_matcher True [105]) [304] 0 = None"
  by (simp add: regexSearch.simps literal_matcher_def occurs_at_def canonicalize_small_def)

lemma highlight_dotted_I:
  "customSearchHighlight RegExp_small [304]
     (Some \<lparr>caseSensitive = False, regexp = False, wholeWord = False, search = js ''i'',
            cursorPos = 0\<rparr>) = Some []"
  by (simp add: customSearchHighlight_def buildRegex_def js_i regex_i execLoop.simps
      no_match_dotted_I)

lemma count_dotted_I:
  "countMatches RegExp_small toLowerCase_small [304] (js ''i'')
     \<lparr>caseSensitive = False, regexp = False, wholeWord = False\<rparr> = Some 1"
  by (simp add: countMatches_def js_i lower_dotted_I lower_i[unfolded js_i] scan_dotted_I)

lemma index_dotted_I:
  "getCurrentMatchIndex RegExp_small toLowerCase_small [304] 0 (js ''i'')
     \<lparr>caseSensitive = False, regexp = False, wholeWord = False\<rparr> = Some 1"
  using count_dotted_I
  by (simp add: getCurrentMatchIndex_def js_i lower_dotted_I lower_i[unfolded js_i] scan_dotted_I
      currentMatchIndex_def)

lemma doc_dotted_I: "toString (Text_of [304]) = [304]"
  by (simp add: toString_Text_of)

lemma escapeRegExp_example:
  "escapeRegExp (js ''a.b'') = js ''a'' @ [char_backslash] @ js ''.b''"
  by (simp add: escapeRegExp_def regexSpecial_def js_def)

text \<open>
  Claim C4. The text is the one code unit U+0130 and the query is \<^verbatim>\<open>i\<close>, literal and
  without case. The lower case of the text is the two code units U+0069 U+0307, so
  the scan of \<^verbatim>\<open>countMatches\<close> over the lower-cased copy finds the query at offset 0,
  where the text itself does not hold the query, whatever the case: the count is 1.
  The highlight, which searches the text itself, finds no span, and \<^verbatim>\<open>find\<close> reports
  match 1 of 1 with nothing highlighted.
\<close>

theorem literal_search_lowercase_offsets:
  "indexOfLoop (toLowerCase_small [304]) (toLowerCase_small (js ''i'')) 0 [] = Some [0]
   \<and> toLowerCase_small (take (length (js ''i'')) (drop 0 [304])) \<noteq> toLowerCase_small (js ''i'')
   \<and> countMatches RegExp_small toLowerCase_small [304] (js ''i'')
        \<lparr>caseSensitive = False, regexp = False, wholeWord = False\<rparr> = Some 1
   \<and> customSearchHighlight RegExp_small [304]
        (Some \<lparr>caseSensitive = False, regexp = False, wholeWord = False, search = js ''i'',
               cursorPos = 0\<rparr>) = Some []
   \<and> find_editor RegExp_small toLowerCase_small (js ''i'')
        \<lparr>caseSensitive = False, regexp = False, wholeWord = False\<rparr>
        \<lparr>doc = Text_of [304], anchor = 0, head = 0, searchQuery = emptyQuery, highlight = []\<rparr>
      = Some ((1, 1),
          \<lparr>doc = Text_of [304], anchor = 0, head = 0,
           searchQuery = \<lparr>caseSensitive = False, regexp = False, wholeWord = False,
                          search = js ''i''\<rparr>,
           highlight = []\<rparr>)"
proof -
  have scan: "indexOfLoop (toLowerCase_small [304]) (toLowerCase_small (js ''i'')) 0 [] = Some [0]"
    by (simp add: lower_dotted_I lower_i scan_dotted_I)
  have sub: "toLowerCase_small (take (length (js ''i'')) (drop 0 [304])) \<noteq> toLowerCase_small (js ''i'')"
    by (simp add: js_i lower_dotted_I lower_i[unfolded js_i])
  have ne: "js ''i'' \<noteq> []" by (simp add: js_i)
  have find: "find_editor RegExp_small toLowerCase_small (js ''i'')
        \<lparr>caseSensitive = False, regexp = False, wholeWord = False\<rparr>
        \<lparr>doc = Text_of [304], anchor = 0, head = 0, searchQuery = emptyQuery, highlight = []\<rparr>
      = Some ((1, 1),
          \<lparr>doc = Text_of [304], anchor = 0, head = 0,
           searchQuery = \<lparr>caseSensitive = False, regexp = False, wholeWord = False,
                          search = js ''i''\<rparr>,
           highlight = []\<rparr>)"
    by (simp add: find_editor_def ne sel_from_def doc_dotted_I highlight_dotted_I count_dotted_I
        index_dotted_I)
  from scan sub count_dotted_I highlight_dotted_I find show ?thesis by blast
qed

section \<open>Properties of documents and lines\<close>

lemma splitLines_ne [simp]: "splitLines s \<noteq> []"
  by (induction s) (auto split: list.splits)

lemma joinLines_Cons: "ls \<noteq> [] \<Longrightarrow> joinLines (l # ls) = l @ char_LF # joinLines ls"
  by (cases ls) simp_all

lemma join_split [simp]: "joinLines (splitLines d) = d"
proof (induction d)
  case Nil
  show ?case by simp
next
  case (Cons c cs)
  show ?case
  proof (cases "c = char_LF")
    case True
    with Cons show ?thesis by (simp add: joinLines_Cons)
  next
    case False
    obtain l ls where sp: "splitLines cs = l # ls" by (cases "splitLines cs") auto
    with Cons have "joinLines (l # ls) = cs" by simp
    then have "joinLines ((c # l) # ls) = c # cs" by (cases ls) auto
    with False sp show ?thesis by simp
  qed
qed

lemma splitLines_LF_free: "LF_free (splitLines d)"
  unfolding LF_free_def
proof (induction d)
  case Nil
  show ?case by simp
next
  case (Cons c cs)
  then show ?case by (cases "splitLines cs") (auto split: if_splits)
qed

lemma splitLines_line: "char_LF \<notin> set l \<Longrightarrow> splitLines l = [l]"
  by (induction l) auto

lemma splitLines_line_LF:
  "char_LF \<notin> set l \<Longrightarrow> splitLines (l @ char_LF # rest) = l # splitLines rest"
  by (induction l) auto

lemma split_join: "ls \<noteq> [] \<Longrightarrow> LF_free ls \<Longrightarrow> splitLines (joinLines ls) = ls"
proof (induction ls rule: joinLines.induct)
  case 1
  then show ?case by simp
next
  case (2 l)
  then show ?case by (simp add: splitLines_line LF_free_def)
next
  case (3 l v va)
  then show ?case by (simp add: splitLines_line_LF LF_free_def)
qed

lemma joinLines_pre: "ys \<noteq> [] \<Longrightarrow> joinLines (xs @ ys) = pre_str xs @ joinLines ys"
  by (induction xs) (simp_all add: pre_str_def joinLines_Cons)

lemma joinLines_Cons_suf: "joinLines (l # ls) = l @ suf_str ls"
  by (induction ls arbitrary: l) (simp_all add: suf_str_def joinLines_Cons)

lemma suf_str_append: "suf_str (xs @ ys) = suf_str xs @ suf_str ys"
  by (simp add: suf_str_def)

lemma joinLines_suf: "xs \<noteq> [] \<Longrightarrow> joinLines (xs @ ys) = joinLines xs @ suf_str ys"
  by (cases xs) (simp_all add: joinLines_Cons_suf suf_str_append)

lemma joinLines_three:
  "mid \<noteq> [] \<Longrightarrow> joinLines (pre @ mid @ post) = pre_str pre @ joinLines mid @ suf_str post"
  by (simp add: joinLines_pre joinLines_suf)

lemma length_pre_str: "length (pre_str ls) = sum_list (map (\<lambda>l. length l + 1) ls)"
  by (induction ls) (simp_all add: pre_str_def)

lemma line_start_pre: "line_start ls n = length (pre_str (take (n - 1) ls))"
  by (simp add: line_start_def length_pre_str)

lemma countLF_append [simp]: "countLF (a @ b) = countLF a + countLF b"
  by (simp add: countLF_def)

lemma countLF_free: "char_LF \<notin> set l \<Longrightarrow> countLF l = 0"
  by (auto simp: countLF_def filter_empty_conv)

lemma countLF_take_free: "char_LF \<notin> set l \<Longrightarrow> countLF (take k l) = 0"
  by (rule countLF_free) (auto dest: in_set_takeD)

lemma countLF_pre_str: "LF_free ls \<Longrightarrow> countLF (pre_str ls) = length ls"
  by (induction ls) (simp_all add: pre_str_def LF_free_def countLF_free, simp add: countLF_def)

lemma countLF_joinLines: "LF_free ls \<Longrightarrow> ls \<noteq> [] \<Longrightarrow> countLF (joinLines ls) = length ls - 1"
proof (induction ls rule: joinLines.induct)
  case 1
  then show ?case by simp
next
  case (2 l)
  then show ?case by (simp add: LF_free_def countLF_free)
next
  case (3 l v va)
  then show ?case by (simp add: LF_free_def countLF_free) (simp add: countLF_def)
qed

lemma countLF_take_mono: "a \<le> b \<Longrightarrow> countLF (take a d) \<le> countLF (take b d)"
proof -
  assume "a \<le> b"
  then have "take b d = take a d @ take (b - a) (drop a d)"
    by (metis le_add_diff_inverse take_add)
  then show ?thesis by simp
qed

lemma countLF_take_le: "countLF (take a d) \<le> countLF d"
  by (metis append_take_drop_id countLF_append le_add1)

lemma countLF_doc: "countLF d = length (splitLines d) - 1"
  using countLF_joinLines[OF splitLines_LF_free splitLines_ne, of d] by simp

lemma doc_line_eq:
  "1 \<le> n \<Longrightarrow> n \<le> length (splitLines d) \<Longrightarrow> doc_line d n = Inr (mk_line d n)"
  by (simp add: doc_line_def mk_line_def Let_def)

lemma lineAt_eq:
  assumes "pos \<le> length d"
  shows "lineAt d pos = Inr (mk_line d (Suc (countLF (take pos d))))"
    and "Suc (countLF (take pos d)) \<le> length (splitLines d)"
proof -
  have "countLF (take pos d) \<le> length (splitLines d) - 1"
    using countLF_take_le[of pos d] by (simp add: countLF_doc)
  moreover have "0 < length (splitLines d)" by simp
  ultimately show le: "Suc (countLF (take pos d)) \<le> length (splitLines d)" by linarith
  with assms show "lineAt d pos = Inr (mk_line d (Suc (countLF (take pos d))))"
    by (simp add: lineAt_def doc_line_eq countLF_def)
qed

lemma lines_of_eq:
  "\<forall>i\<in>set ns. 1 \<le> i \<and> i \<le> length (splitLines d) \<Longrightarrow> lines_of d ns = Inr (map (mk_line d) ns)"
  by (induction ns) (simp_all add: doc_line_eq)

lemma range_texts:
  assumes "1 \<le> s" and "e \<le> length (splitLines d)"
  shows "map line_text (map (mk_line d) [s ..< Suc e]) = range_lines d s e"
proof (rule nth_equalityI)
  show "length (map line_text (map (mk_line d) [s ..< Suc e])) = length (range_lines d s e)"
    using assms by (auto simp: range_lines_def)
next
  fix i
  assume "i < length (map line_text (map (mk_line d) [s ..< Suc e]))"
  then have i: "i < Suc e - s" by (simp del: upt_Suc)
  with assms have "s - 1 + i < length (splitLines d)" by linarith
  with i assms show "map line_text (map (mk_line d) [s ..< Suc e]) ! i = range_lines d s e ! i"
    by (simp add: range_lines_def mk_line_def del: upt_Suc)
qed

lemma lines_decomp:
  assumes "1 \<le> s" "s \<le> e" "e \<le> length ls"
  shows "ls = take (s - 1) ls @ take (Suc e - s) (drop (s - 1) ls) @ drop e ls"
    and "take (Suc e - s) (drop (s - 1) ls) \<noteq> []"
proof -
  from assms have "Suc e - s + (s - 1) = e" by linarith
  then have "drop (Suc e - s) (drop (s - 1) ls) = drop e ls" by simp
  then have "drop (s - 1) ls = take (Suc e - s) (drop (s - 1) ls) @ drop e ls"
    by (metis append_take_drop_id)
  then show "ls = take (s - 1) ls @ take (Suc e - s) (drop (s - 1) ls) @ drop e ls"
    by (metis append_take_drop_id)
  from assms show "take (Suc e - s) (drop (s - 1) ls) \<noteq> []" by auto
qed

lemma line_end_pre:
  assumes "1 \<le> s" "s \<le> e" "e \<le> length ls"
  shows "line_start ls e + length (ls ! (e - 1))
           = length (pre_str (take (s - 1) ls)) + length (joinLines (take (Suc e - s) (drop (s - 1) ls)))"
proof -
  let ?mid = "take (Suc e - s) (drop (s - 1) ls)"
  let ?bl = "take (e - s) (drop (s - 1) ls)"
  from assms have e1: "e - 1 < length ls" by linarith
  from assms have "Suc e - s = Suc (e - s)" by linarith
  moreover from assms have "s - 1 + (e - s) = e - 1" by linarith
  ultimately have mid: "?mid = ?bl @ [ls ! (e - 1)]"
    using e1 assms by (simp add: take_Suc_conv_app_nth)
  have "take (e - 1) ls = take (s - 1) ls @ ?bl"
  proof -
    from assms have "e - 1 = (s - 1) + (e - s)" by linarith
    then show ?thesis by (metis take_add)
  qed
  then have "line_start ls e = length (pre_str (take (s - 1) ls)) + length (pre_str ?bl)"
    by (simp add: line_start_pre pre_str_def)
  moreover have "joinLines ?mid = pre_str ?bl @ ls ! (e - 1)"
    by (subst mid) (simp add: joinLines_pre)
  ultimately show ?thesis by simp
qed

lemma doc_three:
  assumes "1 \<le> s" "s \<le> e" "e \<le> length (splitLines d)"
  shows "d = pre_str (take (s - 1) (splitLines d)) @ joinLines (range_lines d s e)
               @ suf_str (drop e (splitLines d))"
proof -
  let ?ls = "splitLines d"
  from lines_decomp[OF assms]
  have "joinLines ?ls = joinLines (take (s - 1) ?ls @ range_lines d s e @ drop e ?ls)"
    and "range_lines d s e \<noteq> []"
    by (simp_all add: range_lines_def)
  then show ?thesis by (simp add: joinLines_three)
qed

lemma replace_range:
  assumes range: "1 \<le> s" "s \<le> e" "e \<le> length (splitLines d)" and ne: "mid' \<noteq> []"
    and cr: "char_CR \<notin> set (joinLines mid')"
  shows "applyChanges d
           [(line_start (splitLines d) s,
             line_start (splitLines d) e + length (splitLines d ! (e - 1)), joinLines mid')]
         = joinLines (take (s - 1) (splitLines d) @ mid' @ drop e (splitLines d))"
proof -
  let ?ls = "splitLines d"
  let ?pre = "take (s - 1) ?ls" and ?post = "drop e ?ls" and ?mid = "range_lines d s e"
  have d: "d = pre_str ?pre @ joinLines ?mid @ suf_str ?post" by (rule doc_three[OF range])
  have from_eq: "line_start ?ls s = length (pre_str ?pre)" by (rule line_start_pre)
  have to_eq: "line_start ?ls e + length (?ls ! (e - 1))
                 = length (pre_str ?pre) + length (joinLines ?mid)"
    using line_end_pre[OF range] by (simp add: range_lines_def)
  have "take (length (pre_str ?pre)) d = pre_str ?pre"
    by (subst d) simp
  moreover have "drop (length (pre_str ?pre) + length (joinLines ?mid)) d = suf_str ?post"
    by (subst d) simp
  ultimately have "applyChanges d
           [(length (pre_str ?pre), length (pre_str ?pre) + length (joinLines ?mid), joinLines mid')]
         = pre_str ?pre @ joinLines mid' @ suf_str ?post"
    by (simp add: applyChanges_def normalizeBreaks_id[OF cr])
  with ne show ?thesis unfolding from_eq to_eq by (simp add: joinLines_three)
qed

lemma LF_free_append [simp]: "LF_free (xs @ ys) = (LF_free xs \<and> LF_free ys)"
  by (auto simp: LF_free_def)

lemma LF_free_take: "LF_free ls \<Longrightarrow> LF_free (take n ls)"
  by (auto simp: LF_free_def dest: in_set_takeD)

lemma LF_free_drop: "LF_free ls \<Longrightarrow> LF_free (drop n ls)"
  by (auto simp: LF_free_def dest: in_set_dropD)

lemma countLF_struct_in_first:
  assumes "LF_free pre" "char_LF \<notin> set l" "j \<le> length l"
  shows "countLF (take (length (pre_str pre) + j) (pre_str pre @ l @ Y)) = length pre"
  using assms by (simp add: countLF_pre_str countLF_take_free)

lemma countLF_struct_end:
  assumes "LF_free pre" "LF_free mid" "mid \<noteq> []"
  shows "countLF (take (length (pre_str pre) + length (joinLines mid))
                    (pre_str pre @ joinLines mid @ Y)) = length pre + (length mid - 1)"
  using assms by (simp add: countLF_pre_str countLF_joinLines)

lemma length_insert_cmp [simp]: "length (insert_cmp cmp x xs) = Suc (length xs)"
  by (induction xs) simp_all

lemma length_sort_cmp [simp]: "length (sort_cmp cmp xs) = length xs"
  by (induction xs) (simp_all add: sort_cmp_def)

lemma set_insert_cmp [simp]: "set (insert_cmp cmp x xs) = insert x (set xs)"
  by (induction xs) auto

lemma set_sort_cmp [simp]: "set (sort_cmp cmp xs) = set xs"
  by (induction xs) (simp_all add: sort_cmp_def)

lemma sorted_insert_cmp:
  assumes total: "\<And>a b. cmp a b \<le> 0 \<or> cmp b a \<le> 0"
    and trans: "\<And>a b c. cmp a b \<le> 0 \<Longrightarrow> cmp b c \<le> 0 \<Longrightarrow> cmp a c \<le> 0"
  shows "sorted_wrt (\<lambda>a b. cmp a b \<le> 0) xs \<Longrightarrow> sorted_wrt (\<lambda>a b. cmp a b \<le> 0) (insert_cmp cmp x xs)"
proof (induction xs)
  case Nil
  show ?case by simp
next
  case (Cons y ys)
  show ?case
  proof (cases "cmp x y \<le> 0")
    case True
    with Cons.prems trans have "\<forall>z\<in>set ys. cmp x z \<le> 0" by auto
    with True Cons.prems show ?thesis by simp
  next
    case False
    with total have "cmp y x \<le> 0" by blast
    with False Cons show ?thesis by simp
  qed
qed

lemma sorted_sort_cmp:
  assumes total: "\<And>a b. cmp a b \<le> 0 \<or> cmp b a \<le> 0"
    and trans: "\<And>a b c. cmp a b \<le> 0 \<Longrightarrow> cmp b c \<le> 0 \<Longrightarrow> cmp a c \<le> 0"
  shows "sorted_wrt (\<lambda>a b. cmp a b \<le> 0) (sort_cmp cmp xs)"
proof (induction xs)
  case Nil
  show ?case by (simp add: sort_cmp_def)
next
  case (Cons x xs)
  from sorted_insert_cmp[of cmp, OF total trans Cons] show ?case
    by (simp add: sort_cmp_def)
qed

lemma sort_cmp_sorted: "sorted_wrt (\<lambda>a b. cmp a b \<le> 0) xs \<Longrightarrow> sort_cmp cmp xs = xs"
proof (induction xs)
  case Nil
  show ?case by (simp add: sort_cmp_def)
next
  case (Cons x xs)
  then have "sort_cmp cmp xs = xs" by simp
  then have "sort_cmp cmp (x # xs) = insert_cmp cmp x xs" by (simp add: sort_cmp_def)
  with Cons.prems show ?case by (cases xs) simp_all
qed

lemma hasChanged_iff: "length xs = length ys \<Longrightarrow> hasChanged xs ys = (xs \<noteq> ys)"
  unfolding hasChanged_def by (induction xs ys rule: list_induct2) auto


section \<open>Properties of sorting lines\<close>

lemma compareUnits_trans:
  "compareUnits a b \<le> 0 \<Longrightarrow> compareUnits b c \<le> 0 \<Longrightarrow> compareUnits a c \<le> 0"
proof (induction a b arbitrary: c rule: compareUnits.induct)
  case 1
  then show ?case by simp
next
  case (2 y ys)
  then show ?case by (cases c) auto
next
  case (3 x xs)
  then show ?case by simp
next
  case (4 x xs y ys)
  show ?case
  proof (cases c)
    case Nil
    with 4(3) show ?thesis by simp
  next
    case (Cons z zs)
    from 4(2) have xy: "x \<le> y" by (simp split: if_splits)
    from 4(3) Cons have yz: "y \<le> z" by (simp split: if_splits)
    show ?thesis
    proof (cases "x < z")
      case True
      with Cons show ?thesis by simp
    next
      case False
      with xy yz have eq: "x = y" "y = z" by linarith+
      with 4(2) have "compareUnits xs ys \<le> 0" by simp
      moreover from eq 4(3) Cons have "compareUnits ys zs \<le> 0" by simp
      ultimately have "compareUnits xs zs \<le> 0" using 4(1) eq by simp
      with eq Cons show ?thesis by simp
    qed
  qed
qed

lemma compareUnits_total: "compareUnits a b \<le> 0 \<or> compareUnits b a \<le> 0"
  by (induction a b rule: compareUnits.induct) auto

lemma line_range_valid:
  assumes "valid_state st"
  shows "1 \<le> start_line st" "start_line st \<le> end_line st"
    "end_line st \<le> length (splitLines (toString (doc st)))"
proof -
  from assms have f: "sel_from st \<le> length (toString (doc st))" and t: "sel_to st \<le> length (toString (doc st))"
    by (auto simp: valid_state_def sel_from_def sel_to_def)
  have ft: "sel_from st \<le> sel_to st" by (simp add: sel_from_def sel_to_def)
  show "1 \<le> start_line st" by (simp add: start_line_def)
  show "start_line st \<le> end_line st"
    using countLF_take_mono[OF ft, of "toString (doc st)"] lineAt_eq(2)[OF f]
    by (auto simp: start_line_def end_line_def doc_lines_def)
  show "end_line st \<le> length (splitLines (toString (doc st)))"
    using lineAt_eq(2)[OF t] by (simp add: end_line_def doc_lines_def)
qed

lemma sortLinesWith_unfold:
  assumes valid: "valid_state st"
  shows "sortLinesWith cmp st =
     (let d = toString (doc st); s = start_line st; e = end_line st; mid = range_lines d s e;
          srt = sort_cmp cmp mid
      in if mid = srt then Inr None
         else Inr (Some \<lparr>changes = [(line_start (splitLines d) s,
                                      line_start (splitLines d) e + length (splitLines d ! (e - 1)),
                                      joinLines srt)],
                         selection = (int (line_start (splitLines d) s),
                                      int (line_start (splitLines d) s) + int (length (joinLines srt)))\<rparr>))"
proof -
  let ?d = "toString (doc st)" and ?s = "start_line st" and ?e = "end_line st"
  note r = line_range_valid[OF valid]
  from valid have f: "sel_from st \<le> length ?d" and t: "sel_to st \<le> length ?d"
    by (auto simp: valid_state_def sel_from_def sel_to_def)
  have range: "(if sel_empty st then Inr (1, doc_lines ?d)
            else (case lineAt ?d (sel_from st) of
                    Inl e \<Rightarrow> Inl e
                  | Inr l1 \<Rightarrow> (case lineAt ?d (sel_to st) of
                                 Inl e \<Rightarrow> Inl e
                               | Inr l2 \<Rightarrow> Inr (line_number l1, line_number l2))))
          = (Inr (?s, ?e) :: error + nat \<times> nat)"
    by (simp add: lineAt_eq(1)[OF f] lineAt_eq(1)[OF t] start_line_def end_line_def mk_line_def)
  have "\<forall>i\<in>set [?s ..< Suc ?e]. 1 \<le> i \<and> i \<le> length (splitLines ?d)"
    using r by auto
  from lines_of_eq[OF this]
  have lines: "lines_of ?d [?s ..< Suc ?e] = Inr (map (mk_line ?d) [?s ..< Suc ?e])" .
  have texts: "map line_text (map (mk_line ?d) [?s ..< Suc ?e]) = range_lines ?d ?s ?e"
    using range_texts[OF r(1) r(3)] .
  have l1: "doc_line ?d ?s = Inr (mk_line ?d ?s)" using r by (intro doc_line_eq) auto
  have l2: "doc_line ?d ?e = Inr (mk_line ?d ?e)" using r by (intro doc_line_eq) auto
  have len: "length (range_lines ?d ?s ?e) = length (sort_cmp cmp (range_lines ?d ?s ?e))"
    by simp
  show ?thesis
    unfolding sortLinesWith_def range
    by (simp only: lines texts l1 l2 Let_def hasChanged_iff[OF len] sum.case prod.case)
       (simp add: mk_line_def)
qed

lemma joinLines_empty: "xs \<noteq> [] \<Longrightarrow> joinLines xs = [] \<Longrightarrow> xs = [[]]"
  by (cases xs rule: joinLines.cases) simp_all

lemma sort_cmp_single: "sort_cmp cmp [x] = [x]"
  by (simp add: sort_cmp_def)

lemma joinLines_no_CR:
  "\<forall>l\<in>set ls. char_CR \<notin> set l \<Longrightarrow> char_CR \<notin> set (joinLines ls)"
  by (induction ls rule: joinLines.induct) auto

lemma splitLines_no_CR:
  "char_CR \<notin> set d \<Longrightarrow> \<forall>l\<in>set (splitLines d). char_CR \<notin> set l"
  by (induction d) (auto split: list.splits if_splits)

lemma LF_free_range: "LF_free (range_lines d s e)"
  unfolding range_lines_def by (intro LF_free_take LF_free_drop splitLines_LF_free)

lemma sortLinesWith_second_pass:
  assumes valid: "valid_state st"
    and total: "\<And>a b. cmp a b \<le> 0 \<or> cmp b a \<le> 0"
    and trans: "\<And>a b c. cmp a b \<le> 0 \<Longrightarrow> cmp b c \<le> 0 \<Longrightarrow> cmp a c \<le> 0"
    and first: "sortLinesWith cmp st = Inr (Some tr)"
  shows "\<exists>st'. dispatch st tr = Inr st' \<and> sortLinesWith cmp st' = Inr None"
proof -
  define d where "d = toString (doc st)"
  define s where "s = start_line st"
  define e where "e = end_line st"
  define ls where "ls = splitLines d"
  define mid where "mid = range_lines d s e"
  define srt where "srt = sort_cmp cmp mid"
  define pre where "pre = take (s - 1) ls"
  define post where "post = drop e ls"
  define X where "X = joinLines srt"
  define F where "F = length (pre_str pre)"
  define d' where "d' = joinLines (pre @ srt @ post)"
  define st' where "st' = \<lparr>doc = Text_of d', anchor = F, head = F + length X\<rparr>"
  note r = line_range_valid[OF valid, folded s_def e_def d_def]
  have changed: "mid \<noteq> srt"
    and tr: "tr = \<lparr>changes = [(line_start ls s, line_start ls e + length (ls ! (e - 1)), X)],
                   selection = (int (line_start ls s), int (line_start ls s) + int (length X))\<rparr>"
    using first unfolding sortLinesWith_unfold[OF valid] Let_def
    by (auto simp: d_def s_def e_def ls_def mid_def srt_def X_def split: if_splits)
  have mid_len: "length mid = Suc e - s" using r by (simp add: mid_def range_lines_def)
  then have srt_len: "length srt = Suc e - s" by (simp add: srt_def)
  from r have "0 < Suc e - s" by linarith
  with srt_len mid_len have srt_ne: "srt \<noteq> []" and mid_ne: "mid \<noteq> []" by auto
  have pre_len: "length pre = s - 1" using r by (simp add: pre_def ls_def)
  have X_ne: "X \<noteq> []"
  proof
    assume "X = []"
    with srt_ne have s1: "srt = [[]]" unfolding X_def by (rule joinLines_empty)
    with srt_len mid_len have "length mid = Suc 0" by simp
    then obtain m where "mid = [m]" by (auto simp: length_Suc_conv)
    with s1 changed show False by (simp add: srt_def sort_cmp_single)
  qed
  have free: "LF_free (pre @ srt @ post)"
  proof -
    have "LF_free mid" unfolding mid_def by (rule LF_free_range)
    then have "LF_free srt" by (simp add: LF_free_def srt_def)
    moreover have "LF_free pre" "LF_free post"
      unfolding pre_def post_def ls_def
      by (intro LF_free_take LF_free_drop splitLines_LF_free)+
    ultimately show ?thesis by simp
  qed
  have ls_cr: "\<forall>l\<in>set ls. char_CR \<notin> set l"
    unfolding ls_def d_def by (rule splitLines_no_CR) (rule toString_no_CR)
  have mid_sub: "set mid \<subseteq> set ls"
    unfolding mid_def range_lines_def ls_def
    by (meson set_take_subset set_drop_subset subset_trans)
  have srt_cr: "\<forall>l\<in>set srt. char_CR \<notin> set l"
    using ls_cr mid_sub by (auto simp: srt_def)
  have X_cr: "char_CR \<notin> set X"
    unfolding X_def using srt_cr by (rule joinLines_no_CR)
  have "\<forall>l\<in>set (pre @ srt @ post). char_CR \<notin> set l"
    using ls_cr srt_cr by (auto simp: pre_def post_def dest: in_set_takeD in_set_dropD)
  then have d'_cr: "char_CR \<notin> set d'"
    unfolding d'_def by (rule joinLines_no_CR)
  have doc': "toString (doc st') = d'"
    by (simp add: st'_def toString_Text_of_id[OF d'_cr])
  have d'_str: "d' = pre_str pre @ X @ suf_str post"
    using srt_ne by (simp add: d'_def X_def joinLines_three)
  have F_eq: "line_start ls s = F" by (simp add: F_def pre_def line_start_pre)
  have app: "applyChanges (toString (doc st)) [(F, line_start ls e + length (ls ! (e - Suc 0)), X)] = d'"
    using replace_range[OF r srt_ne X_cr[unfolded X_def]] F_eq
    by (simp add: ls_def d'_def pre_def post_def X_def d_def)
  have inside: "F + length X \<le> length d'" by (simp add: d'_str F_def)
  have disp: "dispatch st tr = Inr st'"
    using inside by (simp add: dispatch_def tr app F_eq st'_def)
  have valid': "valid_state st'"
    unfolding valid_state_def doc' by (simp add: st'_def d'_str F_def)
  have split': "splitLines d' = pre @ srt @ post"
    unfolding d'_def using srt_ne free by (intro split_join) auto
  have nonempty': "\<not> sel_empty st'" using X_ne by (simp add: sel_empty_def st'_def)
  have "countLF (take F d') = length pre"
    using countLF_struct_in_first[of pre "[]" 0 "X @ suf_str post"] free
    by (simp add: d'_str F_def)
  then have start': "start_line st' = s"
    using nonempty' r unfolding start_line_def doc'
    by (simp add: st'_def sel_from_def pre_len)
  have "countLF (take (F + length X) d') = length pre + (length srt - 1)"
    using countLF_struct_end[of pre srt "suf_str post"] free srt_ne
    by (simp add: d'_str F_def X_def)
  then have end': "end_line st' = e"
    using nonempty' r unfolding end_line_def doc'
    by (simp add: st'_def sel_to_def pre_len srt_len)
  have range': "range_lines d' s e = srt"
    by (simp add: range_lines_def split' pre_len srt_len)
  have "sorted_wrt (\<lambda>a b. cmp a b \<le> 0) srt"
    unfolding srt_def by (rule sorted_sort_cmp[of cmp, OF total trans])
  then have fixed: "sort_cmp cmp srt = srt" by (rule sort_cmp_sorted)
  have "sortLinesWith cmp st' = Inr None"
    unfolding sortLinesWith_unfold[OF valid'] Let_def
    by (simp add: start' end' doc' range' fixed)
  with disp show ?thesis by blast
qed

lemma sortLinesWith_idempotent:
  assumes valid: "valid_state st"
    and total: "\<And>a b. cmp a b \<le> 0 \<or> cmp b a \<le> 0"
    and trans: "\<And>a b c. cmp a b \<le> 0 \<Longrightarrow> cmp b c \<le> 0 \<Longrightarrow> cmp a c \<le> 0"
  shows "\<exists>st'. run (sortLinesWith cmp) st = Inr st' \<and> sortLinesWith cmp st' = Inr None"
proof -
  from sortLinesWith_unfold[OF valid, of cmp]
  consider "sortLinesWith cmp st = Inr None" | tr where "sortLinesWith cmp st = Inr (Some tr)"
    by (auto simp: Let_def split: if_splits)
  then show ?thesis
  proof cases
    case 1
    then show ?thesis by (simp add: run_def)
  next
    case 2
    from sortLinesWith_second_pass[of st cmp, OF valid total trans 2] 2 show ?thesis
      by (simp add: run_def)
  qed
qed

subsection \<open>Running an operation\<close>

lemma dispatch_inside:
  assumes "applyChanges (toString (doc s)) (changes tr) = d"
    and "selection tr = (int a, int h)" and "a \<le> length d" and "h \<le> length d"
  shows "dispatch s tr = Inr \<lparr>doc = Text_of d, anchor = a, head = h\<rparr>"
  using assms by (simp add: dispatch_def)

lemma dispatch_outside:
  assumes "selection tr = (a, h)" and "a < 0 \<or> h < 0"
  shows "dispatch s tr = Inl RangeError"
  using assms by (auto simp: dispatch_def Let_def)

lemma run_Some: "operation s = Inr (Some tr) \<Longrightarrow> run operation s = dispatch s tr"
  by (simp add: run_def)

lemma run_None: "operation s = Inr None \<Longrightarrow> run operation s = Inr s"
  by (simp add: run_def)

subsection \<open>Sorting twice\<close>

text \<open>
  Claim C8. Let the selection lie inside the document and let \<^verbatim>\<open>localeCompare\<close> be a
  total and transitive comparison. Then each of the two sort operations succeeds, and
  in the state it leaves the same operation finds the lines in order, dispatches
  nothing and leaves the state as it is.
\<close>

theorem sortLines_idempotent:
  assumes "anchor st \<le> length (toString (doc st))" and "head st \<le> length (toString (doc st))"
    and "\<forall>a b. localeCompare a b \<le> 0 \<or> localeCompare b a \<le> 0"
    and "\<forall>a b c. localeCompare a b \<le> 0 \<and> localeCompare b c \<le> 0 \<longrightarrow> localeCompare a c \<le> 0"
  shows "(\<exists>st'. run (sortLinesAscending localeCompare) st = Inr st'
            \<and> sortLinesAscending localeCompare st' = Inr None
            \<and> run (sortLinesAscending localeCompare) st' = Inr st')
         \<and> (\<exists>st'. run (sortLinesDescending localeCompare) st = Inr st'
            \<and> sortLinesDescending localeCompare st' = Inr None
            \<and> run (sortLinesDescending localeCompare) st' = Inr st')"
proof -
  from assms(1,2) have valid: "valid_state st" by (simp add: valid_state_def)
  have asc: "\<exists>st'. run (sortLinesWith (\<lambda>a b. localeCompare a b)) st = Inr st'
               \<and> sortLinesWith (\<lambda>a b. localeCompare a b) st' = Inr None"
    using assms(3,4) by (intro sortLinesWith_idempotent[OF valid]) blast+
  have desc: "\<exists>st'. run (sortLinesWith (\<lambda>a b. localeCompare b a)) st = Inr st'
               \<and> sortLinesWith (\<lambda>a b. localeCompare b a) st' = Inr None"
    using assms(3,4) by (intro sortLinesWith_idempotent[OF valid]) blast+
  have asc_eq: "sortLinesAscending localeCompare = sortLinesWith (\<lambda>a b. localeCompare a b)"
    by (rule ext) (simp add: sortLinesAscending_def)
  have desc_eq: "sortLinesDescending localeCompare = sortLinesWith (\<lambda>a b. localeCompare b a)"
    by (rule ext) (simp add: sortLinesDescending_def)
  from asc desc show ?thesis
    unfolding asc_eq desc_eq by (auto simp: run_def)
qed

lemma doc_bac:
  "toString (Text_of (js ''b'' @ [char_LF] @ js ''a'' @ [char_LF] @ js ''c'')) = [98, 10, 97, 10, 99]"
  by (simp add: toString_Text_of js_def)

lemma sortLinesAscending_bac:
  "sortLinesAscending compareUnits
     \<lparr>doc = Text_of (js ''b'' @ [char_LF] @ js ''a'' @ [char_LF] @ js ''c''), anchor = 0, head = 0\<rparr>
   = Inr (Some \<lparr>changes = [(0, 5, [97, 10, 98, 10, 99])], selection = (0, 5)\<rparr>)"
  apply (simp only: sortLinesAscending_def sortLinesWith_def sel_empty_def sel_from_def sel_to_def
      editor_state.select_convs doc_bac)
  apply code_simp
  done

lemma applyChanges_bac:
  "applyChanges [98, 10, 97, 10, 99] [(0, 5, [97, 10, 98, 10, 99])] = [97, 10, 98, 10, 99]"
  by code_simp

theorem sortLines_idempotent_witness:
  "anchor \<lparr>doc = Text_of (js ''b'' @ [char_LF] @ js ''a'' @ [char_LF] @ js ''c''), anchor = 0, head = 0\<rparr>
     \<le> length (toString (doc \<lparr>doc = Text_of (js ''b'' @ [char_LF] @ js ''a'' @ [char_LF] @ js ''c''),
                               anchor = 0, head = 0\<rparr>))
   \<and> (\<forall>a b. compareUnits a b \<le> 0 \<or> compareUnits b a \<le> 0)
   \<and> run (sortLinesAscending compareUnits)
         \<lparr>doc = Text_of (js ''b'' @ [char_LF] @ js ''a'' @ [char_LF] @ js ''c''), anchor = 0, head = 0\<rparr>
       = Inr \<lparr>doc = Text_of (js ''a'' @ [char_LF] @ js ''b'' @ [char_LF] @ js ''c''), anchor = 0, head = 5\<rparr>
   \<and> (\<exists>st'. run (sortLinesAscending compareUnits)
                 \<lparr>doc = Text_of (js ''b'' @ [char_LF] @ js ''a'' @ [char_LF] @ js ''c''),
                  anchor = 0, head = 0\<rparr>
               = Inr st'
            \<and> sortLinesAscending compareUnits st' = Inr None
            \<and> run (sortLinesAscending compareUnits) st' = Inr st')
   \<and> (\<exists>st'. run (sortLinesDescending compareUnits)
                 \<lparr>doc = Text_of (js ''b'' @ [char_LF] @ js ''a'' @ [char_LF] @ js ''c''),
                  anchor = 0, head = 0\<rparr>
               = Inr st'
            \<and> sortLinesDescending compareUnits st' = Inr None
            \<and> run (sortLinesDescending compareUnits) st' = Inr st')"
proof -
  let ?st = "\<lparr>doc = Text_of (js ''b'' @ [char_LF] @ js ''a'' @ [char_LF] @ js ''c''), anchor = 0, head = 0\<rparr>"
  have h1: "anchor ?st \<le> length (toString (doc ?st))"
    and h2: "head ?st \<le> length (toString (doc ?st))" by simp_all
  have h3: "\<forall>a b. compareUnits a b \<le> 0 \<or> compareUnits b a \<le> 0"
    using compareUnits_total by blast
  have h4: "\<forall>a b c. compareUnits a b \<le> 0 \<and> compareUnits b c \<le> 0 \<longrightarrow> compareUnits a c \<le> 0"
    using compareUnits_trans by blast
  have "dispatch ?st \<lparr>changes = [(0, 5, [97, 10, 98, 10, 99])], selection = (0, 5)\<rparr>
       = Inr \<lparr>doc = Text_of [97, 10, 98, 10, 99], anchor = 0, head = 5\<rparr>"
    by (rule dispatch_inside)
      (simp_all only: editor_state.select_convs transaction.select_convs doc_bac applyChanges_bac,
        simp_all)
  then have ex: "run (sortLinesAscending compareUnits) ?st
       = Inr \<lparr>doc = Text_of (js ''a'' @ [char_LF] @ js ''b'' @ [char_LF] @ js ''c''), anchor = 0, head = 5\<rparr>"
    using run_Some[where operation = "sortLinesAscending compareUnits", OF sortLinesAscending_bac]
    by (simp add: js_def)
  from sortLines_idempotent[OF h1 h2 h3 h4] h1 h3 ex show ?thesis by blast
qed

section \<open>Properties of outdenting\<close>

lemma doc_sp_a: "toString (Text_of (js ''  a'')) = [32, 32, 97]"
  and doc_x_sp_a: "toString (Text_of (js ''x'' @ [char_LF] @ js ''  a'')) = [120, 10, 32, 32, 97]"
  by (simp_all add: toString_Text_of js_def)

lemma outdent_first_line:
  "outdentSelection \<lparr>doc = Text_of (js ''  a''), anchor = 0, head = 0\<rparr>
     = Inr (Some \<lparr>changes = [(0, 2, [])], selection = (0, - 2)\<rparr>)"
  apply (simp only: outdentSelection_def sel_from_def sel_to_def editor_state.select_convs doc_sp_a)
  apply code_simp
  done

lemma outdent_second_line:
  "outdentSelection \<lparr>doc = Text_of (js ''x'' @ [char_LF] @ js ''  a''), anchor = 2, head = 2\<rparr>
     = Inr (Some \<lparr>changes = [(2, 4, [])], selection = (2, 0)\<rparr>)"
  apply (simp only: outdentSelection_def sel_from_def sel_to_def editor_state.select_convs doc_x_sp_a)
  apply code_simp
  done

lemma lineAt_second_line:
  "lineAt (js ''x'' @ [char_LF] @ js ''  a'') 2
     = Inr \<lparr>line_number = 2, line_from = 2, line_to = 5, line_text = js ''  a''\<rparr>"
  by code_simp

text \<open>
  Claim C6. With the cursor at offset 0, the start of the line \<^verbatim>\<open>  a\<close>, the two leading
  spaces are removed and the anchor is clamped to the start of the line, 0. The head
  is not clamped: it is \<^verbatim>\<open>selection.to - totalRemoved\<close>, here \<open>- 2\<close>, and the dispatch of
  that selection throws. With the cursor at offset 2, the start of the second line of
  \<^verbatim>\<open>x\n  a\<close>, the anchor stays at 2 and the head becomes 0, before the start of the only
  affected line.
\<close>

theorem outdentSelection_head_not_clamped:
  "outdentSelection \<lparr>doc = Text_of (js ''  a''), anchor = 0, head = 0\<rparr>
     = Inr (Some \<lparr>changes = [(0, 2, [])], selection = (0, - 2)\<rparr>)
   \<and> run outdentSelection \<lparr>doc = Text_of (js ''  a''), anchor = 0, head = 0\<rparr> = Inl RangeError
   \<and> lineAt (js ''x'' @ [char_LF] @ js ''  a'') 2
     = Inr \<lparr>line_number = 2, line_from = 2, line_to = 5, line_text = js ''  a''\<rparr>
   \<and> outdentSelection \<lparr>doc = Text_of (js ''x'' @ [char_LF] @ js ''  a''), anchor = 2, head = 2\<rparr>
     = Inr (Some \<lparr>changes = [(2, 4, [])], selection = (2, 0)\<rparr>)"
proof -
  have "run outdentSelection \<lparr>doc = Text_of (js ''  a''), anchor = 0, head = 0\<rparr> = Inl RangeError"
    unfolding run_Some[where operation = outdentSelection, OF outdent_first_line]
    by (rule dispatch_outside[where a = 0 and h = "- 2"]) simp_all
  with outdent_first_line lineAt_second_line outdent_second_line show ?thesis by blast
qed

section \<open>Properties of the line comment\<close>

lemma lower_javascript: "toLowerCase_small (js ''javascript'') = js ''javascript''"
  by (simp add: toLowerCase_small_def lower_unit_def js_def)

lemma marker_javascript: "getCommentSyntax toLowerCase_small (Some (js ''javascript'')) = [47, 47]"
  by (simp add: getCommentSyntax_def lower_javascript) (simp add: js_def)

lemma doc_commented: "toString (Text_of (js ''// foo();'')) = [47, 47, 32, 102, 111, 111, 40, 41, 59]"
  and doc_foo: "toString (Text_of (js ''  foo();'')) = [32, 32, 102, 111, 111, 40, 41, 59]"
  and doc_foo_commented:
    "toString (Text_of (js ''  // foo();'')) = [32, 32, 47, 47, 32, 102, 111, 111, 40, 41, 59]"
  by (simp_all add: toString_Text_of js_def)

lemma line_commented:
  "lineAt [47, 47, 32, 102, 111, 111, 40, 41, 59] 0
     = Inr \<lparr>line_number = 1, line_from = 0, line_to = 9,
            line_text = [47, 47, 32, 102, 111, 111, 40, 41, 59]\<rparr>"
  and line_commented_2:
  "lineAt [47, 47, 32, 102, 111, 111, 40, 41, 59] 2
     = Inr \<lparr>line_number = 1, line_from = 0, line_to = 9,
            line_text = [47, 47, 32, 102, 111, 111, 40, 41, 59]\<rparr>"
  and line_foo:
  "lineAt [32, 32, 102, 111, 111, 40, 41, 59] 0
     = Inr \<lparr>line_number = 1, line_from = 0, line_to = 8,
            line_text = [32, 32, 102, 111, 111, 40, 41, 59]\<rparr>"
  and line_foo_commented:
  "lineAt [32, 32, 47, 47, 32, 102, 111, 111, 40, 41, 59] 3
     = Inr \<lparr>line_number = 1, line_from = 0, line_to = 11,
            line_text = [32, 32, 47, 47, 32, 102, 111, 111, 40, 41, 59]\<rparr>"
  by code_simp+

lemma trim_commented:
  "trim [47, 47, 32, 102, 111, 111, 40, 41, 59] = [47, 47, 32, 102, 111, 111, 40, 41, 59]"
  and trim_foo: "trim [32, 32, 102, 111, 111, 40, 41, 59] = [102, 111, 111, 40, 41, 59]"
  and trim_foo_commented:
  "trim [32, 32, 47, 47, 32, 102, 111, 111, 40, 41, 59] = [47, 47, 32, 102, 111, 111, 40, 41, 59]"
  by (simp_all add: trim_def is_space_def)

lemma uncommentText_commented:
  "uncommentText [47, 47] [47, 47, 32, 102, 111, 111, 40, 41, 59] = js ''foo();''"
  and uncommentText_foo_commented:
  "uncommentText [47, 47] [32, 32, 47, 47, 32, 102, 111, 111, 40, 41, 59] = js ''  foo();''"
  by (simp_all add: uncommentText_def indexOf_def occurs_at_def substring_def substring_from_def
      is_space_def upt_rec Let_def js_def)

lemma commentText_foo:
  "commentText [47, 47] [32, 32, 102, 111, 111, 40, 41, 59] = js ''  // foo();''"
  by (simp add: commentText_def substring_def substring_from_def is_space_def Let_def js_def)

lemma uncomment_at_start:
  "toggleLineComment toLowerCase_small (Some (js ''javascript''))
     \<lparr>doc = Text_of (js ''// foo();''), anchor = 0, head = 0\<rparr>
   = Inr (Some \<lparr>changes = [(0, 9, js ''foo();'')], selection = (- 3, - 3)\<rparr>)"
  by (simp add: toggleLineComment_def sel_from_def doc_commented marker_javascript line_commented
      trim_commented startsWith_def uncommentText_commented)

lemma uncomment_inside_marker:
  "toggleLineComment toLowerCase_small (Some (js ''javascript''))
     \<lparr>doc = Text_of (js ''// foo();''), anchor = 2, head = 2\<rparr>
   = Inr (Some \<lparr>changes = [(0, 9, js ''foo();'')], selection = (- 1, - 1)\<rparr>)"
  by (simp add: toggleLineComment_def sel_from_def doc_commented marker_javascript line_commented_2
      trim_commented startsWith_def uncommentText_commented)

lemma comment_foo:
  "toggleLineComment toLowerCase_small (Some (js ''javascript''))
     \<lparr>doc = Text_of (js ''  foo();''), anchor = 0, head = 0\<rparr>
   = Inr (Some \<lparr>changes = [(0, 8, js ''  // foo();'')], selection = (3, 3)\<rparr>)"
  by (simp add: toggleLineComment_def sel_from_def doc_foo marker_javascript line_foo
      trim_foo startsWith_def commentText_foo)

lemma uncomment_foo:
  "toggleLineComment toLowerCase_small (Some (js ''javascript''))
     \<lparr>doc = Text_of (js ''  // foo();''), anchor = 3, head = 3\<rparr>
   = Inr (Some \<lparr>changes = [(0, 11, js ''  foo();'')], selection = (0, 0)\<rparr>)"
  by (simp add: toggleLineComment_def sel_from_def doc_foo_commented marker_javascript
      line_foo_commented trim_foo_commented startsWith_def uncommentText_foo_commented)

lemma applyChanges_comment_foo:
  "applyChanges [32, 32, 102, 111, 111, 40, 41, 59] [(0, 8, js ''  // foo();'')] = js ''  // foo();''"
  and applyChanges_uncomment_foo:
  "applyChanges [32, 32, 47, 47, 32, 102, 111, 111, 40, 41, 59] [(0, 11, js ''  foo();'')]
     = js ''  foo();''"
  by code_simp+

lemma length_examples: "length (js ''  // foo();'') = 11" "length (js ''  foo();'') = 8"
  by (simp_all add: js_def)

text \<open>
  Claim C7. With the language JavaScript and the cursor at the start of the line
  \<^verbatim>\<open>  foo();\<close>, the operation gives \<^verbatim>\<open>  // foo();\<close> with the cursor at 3, and the next
  application gives \<^verbatim>\<open>  foo();\<close> back. On the document \<^verbatim>\<open>// foo();\<close> with the cursor at
  0, or at 2, the operation computes the line without the marker, but asks for the
  selection \<^verbatim>\<open>selection.from - commentChar.length - 1\<close>, which is \<open>- 3\<close>, or \<open>- 1\<close>: the
  dispatch throws and the marker stays.
\<close>

theorem toggleLineComment_uncomment_throws:
  "run (toggleLineComment toLowerCase_small (Some (js ''javascript'')))
     \<lparr>doc = Text_of (js ''  foo();''), anchor = 0, head = 0\<rparr>
     = Inr \<lparr>doc = Text_of (js ''  // foo();''), anchor = 3, head = 3\<rparr>
   \<and> run (toggleLineComment toLowerCase_small (Some (js ''javascript'')))
     \<lparr>doc = Text_of (js ''  // foo();''), anchor = 3, head = 3\<rparr>
     = Inr \<lparr>doc = Text_of (js ''  foo();''), anchor = 0, head = 0\<rparr>
   \<and> toggleLineComment toLowerCase_small (Some (js ''javascript''))
       \<lparr>doc = Text_of (js ''// foo();''), anchor = 0, head = 0\<rparr>
     = Inr (Some \<lparr>changes = [(0, 9, js ''foo();'')], selection = (- 3, - 3)\<rparr>)
   \<and> run (toggleLineComment toLowerCase_small (Some (js ''javascript'')))
       \<lparr>doc = Text_of (js ''// foo();''), anchor = 0, head = 0\<rparr>
     = Inl RangeError
   \<and> toggleLineComment toLowerCase_small (Some (js ''javascript''))
       \<lparr>doc = Text_of (js ''// foo();''), anchor = 2, head = 2\<rparr>
     = Inr (Some \<lparr>changes = [(0, 9, js ''foo();'')], selection = (- 1, - 1)\<rparr>)
   \<and> run (toggleLineComment toLowerCase_small (Some (js ''javascript'')))
       \<lparr>doc = Text_of (js ''// foo();''), anchor = 2, head = 2\<rparr>
     = Inl RangeError"
proof -
  let ?toggle = "toggleLineComment toLowerCase_small (Some (js ''javascript''))"
  have "dispatch \<lparr>doc = Text_of (js ''  foo();''), anchor = 0, head = 0\<rparr>
          \<lparr>changes = [(0, 8, js ''  // foo();'')], selection = (3, 3)\<rparr>
        = Inr \<lparr>doc = Text_of (js ''  // foo();''), anchor = 3, head = 3\<rparr>"
    by (rule dispatch_inside)
      (simp_all only: editor_state.select_convs transaction.select_convs doc_foo
        applyChanges_comment_foo length_examples, simp_all)
  then have r1: "run ?toggle \<lparr>doc = Text_of (js ''  foo();''), anchor = 0, head = 0\<rparr>
       = Inr \<lparr>doc = Text_of (js ''  // foo();''), anchor = 3, head = 3\<rparr>"
    using run_Some[where operation = ?toggle, OF comment_foo] by simp
  have "dispatch \<lparr>doc = Text_of (js ''  // foo();''), anchor = 3, head = 3\<rparr>
          \<lparr>changes = [(0, 11, js ''  foo();'')], selection = (0, 0)\<rparr>
        = Inr \<lparr>doc = Text_of (js ''  foo();''), anchor = 0, head = 0\<rparr>"
    by (rule dispatch_inside)
      (simp_all only: editor_state.select_convs transaction.select_convs doc_foo_commented
        applyChanges_uncomment_foo length_examples, simp_all)
  then have r2: "run ?toggle \<lparr>doc = Text_of (js ''  // foo();''), anchor = 3, head = 3\<rparr>
       = Inr \<lparr>doc = Text_of (js ''  foo();''), anchor = 0, head = 0\<rparr>"
    using run_Some[where operation = ?toggle, OF uncomment_foo] by simp
  have r3: "run ?toggle \<lparr>doc = Text_of (js ''// foo();''), anchor = 0, head = 0\<rparr> = Inl RangeError"
    unfolding run_Some[where operation = ?toggle, OF uncomment_at_start]
    by (rule dispatch_outside[where a = "- 3" and h = "- 3"]) simp_all
  have r4: "run ?toggle \<lparr>doc = Text_of (js ''// foo();''), anchor = 2, head = 2\<rparr> = Inl RangeError"
    unfolding run_Some[where operation = ?toggle, OF uncomment_inside_marker]
    by (rule dispatch_outside[where a = "- 1" and h = "- 1"]) simp_all
  from r1 r2 uncomment_at_start r3 uncomment_inside_marker r4 show ?thesis by blast
qed

section \<open>Properties of the conversion of line endings\<close>

lemma replaceCRLF_no_CR: "char_CR \<notin> set s \<Longrightarrow> replaceCRLF s = s"
  by (induction s rule: replaceCRLF.induct) auto

lemma replaceCR_no_CR: "char_CR \<notin> set s \<Longrightarrow> replaceCR s = s"
  by (induction s) (auto simp: replaceCR_def)

lemma normalizeBreaks_expandLF: "char_CR \<notin> set s \<Longrightarrow> normalizeBreaks (expandLF s) = s"
  by (induction s) (auto simp: expandLF_def)

lemma expandLF_fixed: "expandLF s = s \<longleftrightarrow> char_LF \<notin> set s"
proof
  assume "expandLF s = s"
  then have "length (expandLF s) = length s" by simp
  moreover have "length (expandLF s) = length s + countLF s"
    by (induction s) (simp_all add: expandLF_def countLF_def)
  ultimately have "countLF s = 0" by simp
  then show "char_LF \<notin> set s" by (auto simp: countLF_def filter_empty_conv)
next
  assume "char_LF \<notin> set s"
  then show "expandLF s = s" by (induction s) (auto simp: expandLF_def)
qed

lemma convertToLF_nothing: "convertToLF s = Inr None"
  by (simp add: convertToLF_def Let_def replaceCRLF_no_CR replaceCR_no_CR toString_no_CR)

lemma convertToCRLF_transaction:
  "convertToCRLF s =
     (if char_LF \<in> set (toString (doc s))
      then Inr (Some \<lparr>changes = [(0, length (toString (doc s)), expandLF (toString (doc s)))],
                      selection = (int (anchor s), int (head s))\<rparr>)
      else Inr None)"
  using expandLF_fixed[of "toString (doc s)"]
  by (auto simp: convertToCRLF_def Let_def replaceCRLF_no_CR replaceCR_no_CR toString_no_CR)

lemma convertToCRLF_same_state:
  assumes "anchor s \<le> length (toString (doc s))" and "head s \<le> length (toString (doc s))"
  shows "run convertToCRLF s = Inr s"
proof (cases "char_LF \<in> set (toString (doc s))")
  case False
  then show ?thesis by (simp add: run_def convertToCRLF_transaction)
next
  case True
  have s_eq: "\<lparr>doc = doc s, anchor = anchor s, head = head s\<rparr> = s" by simp
  from True assms show ?thesis
    by (simp add: run_def convertToCRLF_transaction dispatch_def applyChanges_def
        normalizeBreaks_expandLF toString_no_CR Text_of_toString s_eq)
qed

text \<open>
  Claim C9. The text of a document holds no carriage return. For a state with the
  selection inside the document: \<^verbatim>\<open>convertToLF\<close> dispatches nothing;
  \<^verbatim>\<open>convertToCRLF\<close> leaves the state as it is (where it dispatches, the editor reads
  the inserted \<open>CR LF\<close> as line breaks); so \<^verbatim>\<open>convertToLF\<close>, then \<^verbatim>\<open>convertToCRLF\<close>, then
  \<^verbatim>\<open>convertToLF\<close> end in a state with the content of the original.
\<close>

theorem convert_LF_CRLF_LF_round_trip:
  assumes "anchor s \<le> length (toString (doc s))" and "head s \<le> length (toString (doc s))"
  shows "convertToLF s = Inr None
         \<and> run convertToCRLF s = Inr s
         \<and> (\<exists>s1 s2 s3. run convertToLF s = Inr s1 \<and> run convertToCRLF s1 = Inr s2
               \<and> run convertToLF s2 = Inr s3 \<and> toString (doc s3) = toString (doc s))"
proof -
  have lf: "run convertToLF s = Inr s" by (simp add: run_def convertToLF_nothing)
  from lf convertToCRLF_same_state[OF assms] convertToLF_nothing show ?thesis by blast
qed

lemma doc_a_b:
  "toString (Text_of (js ''a'' @ [char_LF] @ js ''b'' @ [char_LF])) = [97, 10, 98, 10]"
  by (simp add: toString_Text_of js_def)

lemma convertToCRLF_a_b:
  "convertToCRLF \<lparr>doc = Text_of (js ''a'' @ [char_LF] @ js ''b'' @ [char_LF]), anchor = 1, head = 4\<rparr>
     = Inr (Some \<lparr>changes = [(0, 4, js ''a'' @ [char_CR, char_LF] @ js ''b'' @ [char_CR, char_LF])],
                  selection = (1, 4)\<rparr>)"
  apply (simp only: convertToCRLF_def editor_state.select_convs doc_a_b)
  apply code_simp
  done

theorem convert_LF_CRLF_LF_round_trip_witness:
  "anchor \<lparr>doc = Text_of (js ''a'' @ [char_LF] @ js ''b'' @ [char_LF]), anchor = 1, head = 4\<rparr>
     \<le> length (toString (doc \<lparr>doc = Text_of (js ''a'' @ [char_LF] @ js ''b'' @ [char_LF]),
                               anchor = 1, head = 4\<rparr>))
   \<and> convertToLF \<lparr>doc = Text_of (js ''a'' @ [char_LF] @ js ''b'' @ [char_LF]), anchor = 1, head = 4\<rparr>
       = Inr None
   \<and> convertToCRLF \<lparr>doc = Text_of (js ''a'' @ [char_LF] @ js ''b'' @ [char_LF]), anchor = 1, head = 4\<rparr>
       = Inr (Some \<lparr>changes = [(0, 4, js ''a'' @ [char_CR, char_LF] @ js ''b'' @ [char_CR, char_LF])],
                    selection = (1, 4)\<rparr>)
   \<and> run convertToCRLF
         \<lparr>doc = Text_of (js ''a'' @ [char_LF] @ js ''b'' @ [char_LF]), anchor = 1, head = 4\<rparr>
       = Inr \<lparr>doc = Text_of (js ''a'' @ [char_LF] @ js ''b'' @ [char_LF]), anchor = 1, head = 4\<rparr>"
proof -
  let ?s = "\<lparr>doc = Text_of (js ''a'' @ [char_LF] @ js ''b'' @ [char_LF]), anchor = 1, head = 4\<rparr>"
  have h1: "anchor ?s \<le> length (toString (doc ?s))"
    and h2: "head ?s \<le> length (toString (doc ?s))"
    by (simp_all only: editor_state.select_convs doc_a_b, simp_all)
  from convert_LF_CRLF_LF_round_trip[OF h1 h2] convertToCRLF_a_b h1 show ?thesis by blast
qed

end
